theory Spec2Isabelle
  imports Complex_Main "HOL-Library.Word" "HOL-Library.Sublist"
begin

unbundle bit_operations_syntax

section \<open>Go strings\<close>

text \<open>
  A Go string is a sequence of bytes, here a \<^typ>\<open>string\<close>. The functions of package
  \<^verbatim>\<open>strings\<close> that \<^verbatim>\<open>grovetccfg.go\<close> calls are written out on bytes. White space is the
  ASCII white space of \<^verbatim>\<open>strings.Fields\<close> (tab, line feed, vertical tab, form feed, carriage
  return, space) and letter case is ASCII letter case: the policy texts and type names handled
  here are ASCII, and bytes from 0x80 on are ordinary characters of the model.
\<close>

definition isSpace :: "char \<Rightarrow> bool" where
  "isSpace c \<longleftrightarrow> c \<in> set [CHR 0x09, CHR 0x0A, CHR 0x0B, CHR 0x0C, CHR 0x0D, CHR '' '']"

text \<open>\<^verbatim>\<open>strings.Fields\<close>: the maximal runs of non-space bytes, in order.\<close>

fun Fields_from :: "string \<Rightarrow> string \<Rightarrow> string list" where
  "Fields_from cur [] = (if cur = [] then [] else [rev cur])"
| "Fields_from cur (c # s) =
     (if isSpace c then (if cur = [] then Fields_from [] s else rev cur # Fields_from [] s)
      else Fields_from (c # cur) s)"

definition Fields :: "string \<Rightarrow> string list" where
  "Fields s = Fields_from [] s"

text \<open>\<^verbatim>\<open>strings.Join\<close>.\<close>

fun Join :: "string list \<Rightarrow> string \<Rightarrow> string" where
  "Join [] sep = []"
| "Join [x] sep = x"
| "Join (x # y # ys) sep = x @ sep @ Join (y # ys) sep"

definition HasPrefix :: "string \<Rightarrow> string \<Rightarrow> bool" where
  "HasPrefix s p \<longleftrightarrow> take (length p) s = p"

definition HasSuffix :: "string \<Rightarrow> string \<Rightarrow> bool" where
  "HasSuffix s p \<longleftrightarrow> length p \<le> length s \<and> drop (length s - length p) s = p"

text \<open>\<^verbatim>\<open>strings.Contains\<close>: the second string occurs somewhere in the first.\<close>

fun Contains :: "string \<Rightarrow> string \<Rightarrow> bool" where
  "Contains [] sub = (sub = [])"
| "Contains (c # s) sub = (HasPrefix (c # s) sub \<or> Contains s sub)"

definition TrimPrefix :: "string \<Rightarrow> string \<Rightarrow> string" where
  "TrimPrefix s p = (if HasPrefix s p then drop (length p) s else s)"

definition TrimSuffix :: "string \<Rightarrow> string \<Rightarrow> string" where
  "TrimSuffix s p = (if HasSuffix s p then take (length s - length p) s else s)"

text \<open>
  \<^verbatim>\<open>strings.Trim(s, cutset)\<close> removes from both ends of \<open>s\<close> every byte that is in the
  cutset: the second argument is a set of characters, not a prefix.
\<close>

definition Trim :: "string \<Rightarrow> string \<Rightarrow> string" where
  "Trim s cutset =
     rev (dropWhile (\<lambda>c. c \<in> set cutset) (rev (dropWhile (\<lambda>c. c \<in> set cutset) s)))"

text \<open>
  \<^verbatim>\<open>strings.Split(s, sep)\<close> for a separator that is not empty (every call here passes a
  constant one): the pieces between the occurrences of \<open>sep\<close>, found from left to right;
  \<open>cur\<close> is the piece being read, reversed.
\<close>

function Split_from :: "string \<Rightarrow> string \<Rightarrow> string \<Rightarrow> string list" where
  "Split_from sep cur [] = [rev cur]"
| "Split_from sep cur (c # s) =
     (if sep \<noteq> [] \<and> HasPrefix (c # s) sep
      then rev cur # Split_from sep [] (drop (length sep) (c # s))
      else Split_from sep (c # cur) s)"
  by pat_completeness auto
termination
  by (relation "measure (\<lambda>(sep, cur, s). length s)") auto

definition Split :: "string \<Rightarrow> string \<Rightarrow> string list" where
  "Split s sep = Split_from sep [] s"

text \<open>\<^verbatim>\<open>strings.ToLower\<close> on ASCII letters.\<close>

definition lowerChar :: "char \<Rightarrow> char" where
  "lowerChar c =
     (if (65::nat) \<le> of_char c \<and> of_char c \<le> (90::nat) then char_of (of_char c + (32::nat)) else c)"

definition ToLower :: "string \<Rightarrow> string" where
  "ToLower s = map lowerChar s"

text \<open>
  \<^verbatim>\<open>strings.Replace(s, old, "", -1)\<close> for an \<open>old\<close> that is not empty: every occurrence of
  \<open>old\<close>, found from left to right, is removed.
\<close>

function RemoveAll :: "string \<Rightarrow> string \<Rightarrow> string" where
  "RemoveAll [] old = []"
| "RemoveAll (c # s) old =
     (if old \<noteq> [] \<and> HasPrefix (c # s) old then RemoveAll (drop (length old) (c # s)) old
      else c # RemoveAll s old)"
  by pat_completeness auto
termination
  by (relation "measure (\<lambda>(s, old). length s)") auto

section \<open>Errors\<close>

text \<open>
  Go errors are values built from a message; the model keeps one constructor for each place
  where \<^verbatim>\<open>grovetccfg.go\<close> creates an error, with the data the message is built from. The
  errors that \<^verbatim>\<open>createRulesOld\<close> wraps carry the inner error. \<open>SliceBoundsPanic\<close> is the
  run-time panic of a slice expression whose bounds are out of order; nothing recovers from
  it, so it ends the run like a returned error does.
\<close>

datatype error =
    MalformedLine string
  | MalformedRemapTxt string
  | AllowParseError string string
  | CIDRParseError string
  | UnknownQStringIgnore int
  | HostnameNotFound
  | CachegroupNotFound string
  | GettingAllowedIPs error
  | QueryStringRuleError string error
  | CDNNotFound string string
  | MakingHeaders string error
  | NoRegexes string
  | ProxyURLParseError string string string
  | SliceBoundsPanic string

section \<open>The header-rewrite compiler: makeModHdrs\<close>

record Hdr =
  Name :: string
  Value :: string

record ModHdrs =
  Set :: "Hdr list"
  Drop :: "string list"

definition emptyModHdrs :: ModHdrs where
  "emptyModHdrs = \<lparr>Set = [], Drop = []\<rparr>"

text \<open>
  The state of the loop over the lines: the direction flag \<^verbatim>\<open>toOrigin\<close>, the client list
  and the origin list. \<open>modHdrsLine\<close> is the body of the loop for one line; \<^verbatim>\<open>continue\<close>
  returns the state as it is, \<^verbatim>\<open>return ..., errors.New(...)\<close> is \<open>Inl\<close>.
\<close>

type_synonym hdrState = "bool \<times> ModHdrs \<times> ModHdrs"

definition lineParts :: "string \<Rightarrow> string list" where
  "lineParts line = Fields (TrimSuffix line ''[L]'')"

definition modHdrsLine :: "string \<Rightarrow> hdrState \<Rightarrow> error + hdrState" where
  "modHdrsLine line0 st =
     (case st of (toOrigin, toClientList, toOriginList) \<Rightarrow>
      let line = TrimSuffix line0 ''[L]'';
          parts = Fields line
      in if length parts = 0 then Inr st
         else if length parts < 2 then Inl (MalformedLine line)
         else if parts ! 0 = ''cond'' then
           (let t1 = (if parts ! 1 = ''%{SEND_RESPONSE_HDR_HOOK}'' then False else toOrigin);
                t2 = (if parts ! 1 = ''%{SEND_REQUEST_HDR_HOOK}'' then True else t1)
            in Inr (t2, toClientList, toOriginList))
         else if parts ! 0 = ''set-header'' \<or> parts ! 0 = ''add-header'' then
           (if length parts < 3 then Inl (MalformedLine line)
            else let hdr = \<lparr>Name = parts ! 1, Value = Join (drop 2 parts) '' ''\<rparr>
                 in if toOrigin
                    then Inr (toOrigin, toClientList, toOriginList\<lparr>Set := Set toOriginList @ [hdr]\<rparr>)
                    else Inr (toOrigin, toClientList\<lparr>Set := Set toClientList @ [hdr]\<rparr>, toOriginList))
         else if parts ! 0 = ''rm-header'' then
           (if toOrigin
            then Inr (toOrigin, toClientList, toOriginList\<lparr>Drop := Drop toOriginList @ [parts ! 1]\<rparr>)
            else Inr (toOrigin, toClientList\<lparr>Drop := Drop toClientList @ [parts ! 1]\<rparr>, toOriginList))
         else Inr st)"

fun modHdrsLines :: "string list \<Rightarrow> hdrState \<Rightarrow> error + hdrState" where
  "modHdrsLines [] st = Inr st"
| "modHdrsLines (line # lines) st =
     (case modHdrsLine line st of Inl e \<Rightarrow> Inl e | Inr st' \<Rightarrow> modHdrsLines lines st')"

text \<open>
  \<^verbatim>\<open>makeModHdrs\<close> returns the client header modifications and the origin header
  modifications, or an error. The remap text is read only by the first test.
\<close>

definition makeModHdrs :: "string \<Rightarrow> string \<Rightarrow> error + (ModHdrs \<times> ModHdrs)" where
  "makeModHdrs edgeHRW0 remapTXT0 =
     (if edgeHRW0 = [] \<and> remapTXT0 = [] then Inr (emptyModHdrs, emptyModHdrs)
      else
        let edgeHRW = Join (Fields edgeHRW0) '' ''
        in if Contains edgeHRW ''-header''
           then (case modHdrsLines (Split edgeHRW ''__RETURN__'') (True, emptyModHdrs, emptyModHdrs) of
                   Inl e \<Rightarrow> Inl e
                 | Inr (toOrigin, toClientList, toOriginList) \<Rightarrow> Inr (toClientList, toOriginList))
           else Inr (emptyModHdrs, emptyModHdrs))"

section \<open>Package net: addresses, masks and the address parser\<close>

text \<open>
  \<^verbatim>\<open>net.IP\<close> and \<^verbatim>\<open>net.IPMask\<close> are byte slices of length 4 or 16; \<^verbatim>\<open>nil\<close> and the empty
  slice are both the empty list (the functions below only look at the length). The functions
  follow the Go standard library: \<^verbatim>\<open>CIDRMask\<close>, \<^verbatim>\<open>IP.Mask\<close>, \<^verbatim>\<open>IP.Equal\<close>, \<^verbatim>\<open>ParseIP\<close>
  and \<^verbatim>\<open>ParseCIDR\<close>.
\<close>

type_synonym IP = "8 word list"
type_synonym IPMask = "8 word list"

record IPNet =
  IP :: IP
  Mask :: IPMask

definition v4InV6Prefix :: "8 word list" where
  "v4InV6Prefix = [0, 0, 0, 0, 0, 0, 0, 0, 0, 0, 0xff, 0xff]"

definition IPv4 :: "8 word \<Rightarrow> 8 word \<Rightarrow> 8 word \<Rightarrow> 8 word \<Rightarrow> IP" where
  "IPv4 a b c d = v4InV6Prefix @ [a, b, c, d]"

definition allFF :: "8 word list \<Rightarrow> bool" where
  "allFF b = list_all (\<lambda>c. c = 0xff) b"

text \<open>
  \<^verbatim>\<open>CIDRMask(ones, bits)\<close>: \<open>ones\<close> one-bits followed by zeros, \<open>bits\<close> bits in all;
  \<^verbatim>\<open>nil\<close> when \<open>bits\<close> is neither 32 nor 128 or \<open>ones\<close> is out of range.
\<close>

fun CIDRMask_bytes :: "nat \<Rightarrow> nat \<Rightarrow> 8 word list" where
  "CIDRMask_bytes n 0 = []"
| "CIDRMask_bytes n (Suc l) =
     (if 8 \<le> n then 0xff # CIDRMask_bytes (n - 8) l
      else NOT (drop_bit n (0xff :: 8 word)) # CIDRMask_bytes 0 l)"

definition CIDRMask :: "int \<Rightarrow> int \<Rightarrow> IPMask" where
  "CIDRMask ones bits =
     (if bits \<noteq> 32 \<and> bits \<noteq> 128 then []
      else if ones < 0 \<or> ones > bits then []
      else CIDRMask_bytes (nat ones) (nat (bits div 8)))"

text \<open>
  \<^verbatim>\<open>ip.Mask(mask)\<close>: a 16-byte mask over a 4-byte address and a 4-byte mask over an
  IPv4-mapped 16-byte address are brought to 4 bytes first; lengths that still differ give
  \<^verbatim>\<open>nil\<close>.
\<close>

definition IP_Mask :: "IP \<Rightarrow> IPMask \<Rightarrow> IP" where
  "IP_Mask ip0 mask0 =
     (let mask = (if length mask0 = 16 \<and> length ip0 = 4 \<and> allFF (take 12 mask0)
                  then drop 12 mask0 else mask0);
          ip = (if length mask = 4 \<and> length ip0 = 16 \<and> take 12 ip0 = v4InV6Prefix
                then drop 12 ip0 else ip0)
      in if length ip \<noteq> length mask then [] else map2 (AND) ip mask)"

definition IP_Equal :: "IP \<Rightarrow> IP \<Rightarrow> bool" where
  "IP_Equal ip x =
     (if length ip = length x then ip = x
      else if length ip = 4 \<and> length x = 16 then take 12 x = v4InV6Prefix \<and> ip = drop 12 x
      else if length ip = 16 \<and> length x = 4 then take 12 ip = v4InV6Prefix \<and> drop 12 ip = x
      else False)"


text \<open>
  \<^verbatim>\<open>dtoi\<close> and \<^verbatim>\<open>xtoi\<close> read a decimal and a hexadecimal number at the start of a string
  and return the number, the count of bytes read and whether a number was read; a number that
  reaches \<^verbatim>\<open>big = 0xFFFFFF\<close> is refused.
\<close>

definition big :: nat where
  "big = 0xFFFFFF"

definition isDigit :: "char \<Rightarrow> bool" where
  "isDigit c \<longleftrightarrow> (48::nat) \<le> of_char c \<and> of_char c \<le> (57::nat)"

fun dtoi_from :: "string \<Rightarrow> nat \<Rightarrow> nat \<Rightarrow> nat \<times> nat \<times> bool" where
  "dtoi_from [] n i = (if i = 0 then (0, 0, False) else (n, i, True))"
| "dtoi_from (c # s) n i =
     (if isDigit c
      then (let n' = n * 10 + (of_char c - 48)
            in if big \<le> n' then (big, i, False) else dtoi_from s n' (i + 1))
      else (if i = 0 then (0, 0, False) else (n, i, True)))"

definition dtoi :: "string \<Rightarrow> nat \<times> nat \<times> bool" where
  "dtoi s = dtoi_from s 0 0"

definition hexVal :: "char \<Rightarrow> nat option" where
  "hexVal c =
     (let k = (of_char c :: nat)
      in if 48 \<le> k \<and> k \<le> 57 then Some (k - 48)
         else if 97 \<le> k \<and> k \<le> 102 then Some (k - 97 + 10)
         else if 65 \<le> k \<and> k \<le> 70 then Some (k - 65 + 10)
         else None)"

fun xtoi_from :: "string \<Rightarrow> nat \<Rightarrow> nat \<Rightarrow> nat \<times> nat \<times> bool" where
  "xtoi_from [] n i = (if i = 0 then (0, i, False) else (n, i, True))"
| "xtoi_from (c # s) n i =
     (case hexVal c of
        Some d \<Rightarrow> (let n' = n * 16 + d
                   in if big \<le> n' then (0, i, False) else xtoi_from s n' (i + 1))
      | None \<Rightarrow> (if i = 0 then (0, i, False) else (n, i, True)))"

definition xtoi :: "string \<Rightarrow> nat \<times> nat \<times> bool" where
  "xtoi s = xtoi_from s 0 0"

text \<open>
  \<^verbatim>\<open>parseIPv4\<close>: four decimal fields of at most 255 separated by dots and nothing after
  them; the result is the 16-byte IPv4-mapped form. A field may have leading zeros, as in the
  Go releases this program was written for (later releases refuse them). \<open>parseIPv4_fields k later s\<close> reads the
  last \<open>k\<close> fields, \<open>later\<close> telling that a field was read before (so a dot must come first).
\<close>

fun parseIPv4_fields :: "nat \<Rightarrow> bool \<Rightarrow> string \<Rightarrow> (8 word list \<times> string) option" where
  "parseIPv4_fields 0 later s = Some ([], s)"
| "parseIPv4_fields (Suc k) later s =
     (if s = [] then None
      else if later \<and> hd s \<noteq> CHR ''.'' then None
      else let s1 = (if later then tl s else s)
           in case dtoi s1 of (n, c, ok) \<Rightarrow>
                if \<not> ok \<or> n > 0xFF then None
                else (case parseIPv4_fields k True (drop c s1) of
                        None \<Rightarrow> None
                      | Some (p, rest) \<Rightarrow> Some (of_nat n # p, rest)))"

definition parseIPv4 :: "string \<Rightarrow> IP option" where
  "parseIPv4 s =
     (case parseIPv4_fields 4 False s of
        None \<Rightarrow> None
      | Some (p, rest) \<Rightarrow> if rest \<noteq> [] then None else Some (v4InV6Prefix @ p))"

text \<open>
  \<^verbatim>\<open>parseIPv6\<close> without zone. The loop reads 16-bit groups separated by colons into
  \<open>ip\<close> (the bytes written so far, so that Go's index \<^verbatim>\<open>i\<close> is \<open>length ip\<close>), remembers
  the position of a double colon in \<open>ellipsis\<close>, and accepts a trailing dotted IPv4 address.
  It returns the bytes, the ellipsis and the unread rest, or \<open>None\<close> where Go returns
  \<^verbatim>\<open>nil\<close>.
\<close>

function parseIPv6_loop ::
  "8 word list \<Rightarrow> nat option \<Rightarrow> string \<Rightarrow> (8 word list \<times> nat option \<times> string) option" where
  "parseIPv6_loop ip ellipsis s =
     (if 16 \<le> length ip then Some (ip, ellipsis, s)
      else case xtoi s of (n, c, ok) \<Rightarrow>
        if \<not> ok \<or> n > 0xFFFF then None
        else if c < length s \<and> s ! c = CHR ''.'' then
          (if ellipsis = None \<and> length ip \<noteq> 12 then None
           else if length ip + 4 > 16 then None
           else case parseIPv4 s of
                  None \<Rightarrow> None
                | Some ip4 \<Rightarrow> Some (ip @ drop 12 ip4, ellipsis, []))
        else
          (let ip' = ip @ [of_nat (n div 256), of_nat n];
               s1 = drop c s
           in if s1 = [] then Some (ip', ellipsis, s1)
              else if hd s1 \<noteq> CHR '':'' \<or> length s1 = 1 then None
              else let s2 = tl s1
                   in if hd s2 = CHR '':''
                      then (if ellipsis \<noteq> None then None
                            else let s3 = tl s2
                                 in if s3 = [] then Some (ip', Some (length ip'), s3)
                                    else parseIPv6_loop ip' (Some (length ip')) s3)
                      else parseIPv6_loop ip' ellipsis s2))"
  by pat_completeness auto
termination
  by (relation "measure (\<lambda>(ip, ellipsis, s). 16 - length ip)") auto

definition parseIPv6 :: "string \<Rightarrow> IP option" where
  "parseIPv6 s0 =
     (let lead = (2 \<le> length s0 \<and> s0 ! 0 = CHR '':'' \<and> s0 ! 1 = CHR '':'');
          s = (if lead then drop 2 s0 else s0);
          ellipsis = (if lead then Some 0 else None)
      in if lead \<and> s = [] then Some (replicate 16 0)
         else case parseIPv6_loop [] ellipsis s of
                None \<Rightarrow> None
              | Some (ip, ellipsis', rest) \<Rightarrow>
                  if rest \<noteq> [] then None
                  else if length ip < 16 then
                    (case ellipsis' of
                       None \<Rightarrow> None
                     | Some e \<Rightarrow> Some (take e ip @ replicate (16 - length ip) 0 @ drop e ip))
                  else if ellipsis' \<noteq> None then None
                  else Some ip)"

text \<open>\<^verbatim>\<open>ParseIP\<close>: the first dot or colon of the string chooses the parser.\<close>

fun ParseIP_scan :: "string \<Rightarrow> string \<Rightarrow> IP option" where
  "ParseIP_scan [] s = None"
| "ParseIP_scan (c # r) s =
     (if c = CHR ''.'' then parseIPv4 s
      else if c = CHR '':'' then parseIPv6 s
      else ParseIP_scan r s)"

definition ParseIP :: "string \<Rightarrow> IP option" where
  "ParseIP s = ParseIP_scan s s"

text \<open>\<^verbatim>\<open>ParseCIDR\<close>, of which the callers here use the network only.\<close>

fun IndexByte :: "string \<Rightarrow> char \<Rightarrow> nat option" where
  "IndexByte [] c = None"
| "IndexByte (x # s) c = (if x = c then Some 0 else map_option Suc (IndexByte s c))"

definition ParseCIDR :: "string \<Rightarrow> IPNet option" where
  "ParseCIDR s =
     (case IndexByte s CHR ''/'' of
        None \<Rightarrow> None
      | Some i \<Rightarrow>
          let addr = take i s;
              mask = drop (i + 1) s;
              ip4 = parseIPv4 addr;
              iplen = (if ip4 = None then 16 else 4 :: nat);
              ip = (if ip4 = None then parseIPv6 addr else ip4)
          in case dtoi mask of (n, j, ok) \<Rightarrow>
               (case ip of
                  None \<Rightarrow> None
                | Some a \<Rightarrow>
                    if \<not> ok \<or> j \<noteq> length mask \<or> n > 8 * iplen then None
                    else let m = CIDRMask (int n) (int (8 * iplen))
                         in Some \<lparr>IP = IP_Mask a m, Mask = m\<rparr>))"

section \<open>The ACL compiler: makeACL\<close>

text \<open>
  The loop of \<^verbatim>\<open>makeACL\<close> that widens the mask: it returns the value of \<^verbatim>\<open>maskBits\<close>
  when it stops, and the mask then is \<open>CIDRMask maskBits allBits\<close>. Below zero the mask is
  \<^verbatim>\<open>nil\<close>, both masked addresses are \<^verbatim>\<open>nil\<close>, and \<^verbatim>\<open>Equal\<close> holds: this is what the
  termination proof uses.
\<close>

function maskLoop :: "IP \<Rightarrow> IP \<Rightarrow> int \<Rightarrow> int \<Rightarrow> int" where
  "maskLoop start end' maskBits allBits =
     (if IP_Equal (IP_Mask start (CIDRMask maskBits allBits))
                  (IP_Mask end' (CIDRMask maskBits allBits))
      then maskBits
      else maskLoop start end' (maskBits - 1) allBits)"
  by pat_completeness auto
termination
proof (relation "measure (\<lambda>(start, end', maskBits, allBits). nat (maskBits + 1))")
  show "wf (measure (\<lambda>(start, end', maskBits, allBits). nat (maskBits + 1)))"
    by simp
next
  fix start end' :: IP and maskBits allBits :: int
  assume ne: "\<not> IP_Equal (IP_Mask start (CIDRMask maskBits allBits))
                          (IP_Mask end' (CIDRMask maskBits allBits))"
  have "0 \<le> maskBits"
  proof (rule ccontr)
    assume "\<not> 0 \<le> maskBits"
    then have "CIDRMask maskBits allBits = []"
      by (simp add: CIDRMask_def)
    then have "IP_Mask start (CIDRMask maskBits allBits) = []"
      and "IP_Mask end' (CIDRMask maskBits allBits) = []"
      by (simp_all add: IP_Mask_def)
    with ne show False
      by (simp add: IP_Equal_def)
  qed
  then show "((start, end', maskBits - 1, allBits), (start, end', maskBits, allBits))
      \<in> measure (\<lambda>(start, end', maskBits, allBits). nat (maskBits + 1))"
    by simp
qed

definition allBitsOf :: "string \<Rightarrow> int" where
  "allBitsOf allowStr = (if Contains allowStr '':'' then 128 else 32)"

text \<open>The body of the loop over the tokens after \<^verbatim>\<open>@action=allow\<close>: one network or an error.\<close>

definition aclEntry :: "string \<Rightarrow> string \<Rightarrow> error + IPNet" where
  "aclEntry remapTxt allowStr =
     (let allBits = allBitsOf allowStr
      in if Contains allowStr ''-'' then
           (let a = Split (TrimPrefix allowStr ''@src_ip='') ''-''
            in if length a < 2 then Inl (MalformedRemapTxt remapTxt)
               else case (ParseIP (a ! 0), ParseIP (a ! 1)) of
                      (Some start, Some end') \<Rightarrow>
                        (let maskBits = maskLoop start end' allBits allBits;
                             mask = CIDRMask maskBits allBits
                         in Inr \<lparr>IP = IP_Mask start mask, Mask = mask\<rparr>)
                    | _ \<Rightarrow> Inl (AllowParseError allowStr remapTxt))
         else
           (let addrStr = Trim allowStr ''@src_ip=''
            in case ParseIP addrStr of
                 None \<Rightarrow> Inl (AllowParseError allowStr remapTxt)
               | Some addr \<Rightarrow>
                   (let mask = CIDRMask allBits allBits
                    in Inr \<lparr>IP = IP_Mask addr mask, Mask = mask\<rparr>)))"

fun aclLoop :: "string \<Rightarrow> string list \<Rightarrow> IPNet list \<Rightarrow> error + IPNet list" where
  "aclLoop remapTxt [] allow = Inr allow"
| "aclLoop remapTxt (allowStr # rest) allow =
     (case aclEntry remapTxt allowStr of
        Inl e \<Rightarrow> Inl e
      | Inr n \<Rightarrow> aclLoop remapTxt rest (allow @ [n]))"

definition makeACL :: "string \<Rightarrow> error + IPNet list" where
  "makeACL remapTxt0 =
     (let remapTxt = Join (Fields remapTxt0) '' ''
      in if HasPrefix remapTxt ''@action=allow''
         then (let remaps = Split remapTxt '' ''
               in if length remaps < 2 then Inl (MalformedRemapTxt remapTxt)
                  else aclLoop remapTxt (tl remaps) [])
         else Inr [])"

section \<open>Topology: getParents\<close>

record Server =
  HostName :: string
  DomainName :: string
  TCPPort :: int
  Cachegroup :: string

record CacheGroup =
  ParentName :: string

text \<open>
  The server map is read by key and also ranged over. It is an association list: a lookup
  \<^verbatim>\<open>servers[hostname]\<close> is \<open>map_of servers hostname\<close>, and the list gives the order in
  which \<^verbatim>\<open>range\<close> visits the entries, which Go leaves open. The cache-group map is only
  read by key.
\<close>

definition getParents ::
  "string \<Rightarrow> (string \<times> Server) list \<Rightarrow> (string \<rightharpoonup> CacheGroup) \<Rightarrow> error + Server list" where
  "getParents hostname servers cachegroups =
     (case map_of servers hostname of
        None \<Rightarrow> Inl HostnameNotFound
      | Some server \<Rightarrow>
          (case cachegroups (Cachegroup server) of
             None \<Rightarrow> Inl (CachegroupNotFound (Cachegroup server))
           | Some cachegroup \<Rightarrow>
               Inr (filter (\<lambda>server. Cachegroup server = ParentName cachegroup) (map snd servers))))"

definition filterParents :: "Server list \<Rightarrow> (Server \<Rightarrow> bool) \<Rightarrow> Server list" where
  "filterParents parents include = filter include parents"

section \<open>Protocols, patterns and destinations\<close>

definition ProtocolHTTP :: int where "ProtocolHTTP = 0"
definition ProtocolHTTPS :: int where "ProtocolHTTPS = 1"
definition ProtocolHTTPAndHTTPS :: int where "ProtocolHTTPAndHTTPS = 2"
definition ProtocolHTTPToHTTPS :: int where "ProtocolHTTPToHTTPS = 3"

record ProtocolStr =
  From :: string
  To :: string

text \<open>The \<^verbatim>\<open>switch protocol\<close> of \<^verbatim>\<open>createRulesOld\<close>; it has no default case.\<close>

definition protocolStrsOf :: "int \<Rightarrow> ProtocolStr list" where
  "protocolStrsOf protocol =
     (if protocol = ProtocolHTTP then [\<lparr>From = ''http'', To = ''http''\<rparr>]
      else if protocol = ProtocolHTTPS then [\<lparr>From = ''https'', To = ''https''\<rparr>]
      else if protocol = ProtocolHTTPAndHTTPS
        then [\<lparr>From = ''http'', To = ''http''\<rparr>, \<lparr>From = ''https'', To = ''https''\<rparr>]
      else if protocol = ProtocolHTTPToHTTPS
        then [\<lparr>From = ''http'', To = ''https''\<rparr>, \<lparr>From = ''https'', To = ''https''\<rparr>]
      else [])"

text \<open>
  \<^verbatim>\<open>trimLiteralRegex\<close>: the prefix is the four bytes \<^verbatim>\<open>.*\.\<close> and the suffix the four
  bytes \<^verbatim>\<open>\..*\<close>. The slice \<^verbatim>\<open>s[len(prefix) : len(s)-len(suffix)]\<close> panics when the upper
  bound is below the lower one, which a string shorter than eight bytes with both the prefix
  and the suffix causes.
\<close>

definition literalPrefix :: string where
  "literalPrefix = [CHR ''.'', CHR ''*'', CHR 0x5C, CHR ''.'']"

definition literalSuffix :: string where
  "literalSuffix = [CHR 0x5C, CHR ''.'', CHR ''.'', CHR ''*'']"

definition trimLiteralRegex :: "string \<Rightarrow> error + (string \<times> bool)" where
  "trimLiteralRegex s =
     (if HasPrefix s literalPrefix \<and> HasSuffix s literalSuffix
      then (if length s - length literalSuffix < length literalPrefix
              \<or> length s < length literalSuffix
            then Inl (SliceBoundsPanic s)
            else Inr (drop (length literalPrefix) (take (length s - length literalSuffix) s), True))
      else Inr (s, False))"

definition buildFrom :: "string \<Rightarrow> string \<Rightarrow> bool \<Rightarrow> string \<Rightarrow> string \<Rightarrow> string \<Rightarrow> string" where
  "buildFrom protocol pattern patternLiteralRegex host dsType cdnDomain =
     (if \<not> patternLiteralRegex then protocol @ ''://'' @ pattern
      else if HasPrefix dsType ''http''
        then protocol @ ''://'' @ host @ ''.'' @ pattern @ ''.'' @ cdnDomain
      else protocol @ ''://'' @ ''edge.'' @ pattern @ ''.'' @ cdnDomain)"

definition dsTypeSkipsMid :: "string \<Rightarrow> bool" where
  "dsTypeSkipsMid ttype0 =
     (let ttype = ToLower ttype0
      in if ttype = ''http_no_cache'' \<or> ttype = ''http_live'' \<or> ttype = ''dns_live'' then True
         else if Contains ttype ''live'' \<and> \<not> Contains ttype ''natnl'' then True
         else False)"

text \<open>\<^verbatim>\<open>strconv.Itoa\<close>: the decimal digits, with a minus sign for a negative number.\<close>

fun natDigits :: "nat \<Rightarrow> string" where
  "natDigits n =
     (if n < 10 then [char_of (48 + n)] else natDigits (n div 10) @ [char_of (48 + n mod 10)])"

definition Itoa :: "int \<Rightarrow> string" where
  "Itoa i = (if i < 0 then CHR ''-'' # natDigits (nat (- i)) else natDigits (nat i))"

definition buildTo :: "Server \<Rightarrow> string \<Rightarrow> string \<Rightarrow> string \<Rightarrow> string \<times> string" where
  "buildTo parentServer protocol originURI dsType =
     (originURI,
      if \<not> dsTypeSkipsMid dsType
      then ''http://'' @ HostName parentServer @ ''.'' @ DomainName parentServer @ '':''
             @ Itoa (TCPPort parentServer)
      else [])"

section \<open>Query-string policy and the allowed addresses of the host\<close>

definition DeliveryServiceQueryStringCacheAndRemap :: int where
  "DeliveryServiceQueryStringCacheAndRemap = 0"
definition DeliveryServiceQueryStringNoCacheRemap :: int where
  "DeliveryServiceQueryStringNoCacheRemap = 1"
definition DeliveryServiceQueryStringNoCacheNoRemap :: int where
  "DeliveryServiceQueryStringNoCacheNoRemap = 2"

record QueryStringRule =
  Remap :: bool
  Cache :: bool

definition getQueryStringRule :: "int \<Rightarrow> error + QueryStringRule" where
  "getQueryStringRule dsQstringIgnore =
     (if dsQstringIgnore = DeliveryServiceQueryStringCacheAndRemap
        then Inr \<lparr>Remap = True, Cache = True\<rparr>
      else if dsQstringIgnore = DeliveryServiceQueryStringNoCacheRemap
        then Inr \<lparr>Remap = True, Cache = True\<rparr>
      else if dsQstringIgnore = DeliveryServiceQueryStringNoCacheNoRemap
        then Inr \<lparr>Remap = False, Cache = False\<rparr>
      else Inl (UnknownQStringIgnore dsQstringIgnore))"

record Parameter =
  Param_Name :: string
  Param_ConfigFile :: string
  Param_Value :: string

definition TrimSpace :: "string \<Rightarrow> string" where
  "TrimSpace s = rev (dropWhile isSpace (rev (dropWhile isSpace s)))"

fun makeAllowIP_loop :: "string list \<Rightarrow> IPNet list \<Rightarrow> error + IPNet list" where
  "makeAllowIP_loop [] cidrs = Inr cidrs"
| "makeAllowIP_loop (ip0 # ips) cidrs =
     (let ip1 = TrimSpace ip0;
          ip = (if \<not> Contains ip1 ''/''
                then (if Contains ip1 '':'' then ip1 @ ''/128'' else ip1 @ ''/32'')
                else ip1)
      in case ParseCIDR ip of
           None \<Rightarrow> Inl (CIDRParseError ip)
         | Some cidrnet \<Rightarrow> makeAllowIP_loop ips (cidrs @ [cidrnet]))"

definition makeAllowIP :: "string list \<Rightarrow> error + IPNet list" where
  "makeAllowIP ips = makeAllowIP_loop ips []"

definition getAllowIP :: "Parameter list \<Rightarrow> error + IPNet list" where
  "getAllowIP params =
     makeAllowIP (concat (map (\<lambda>param. Split (Param_Value param) '','')
       (filter (\<lambda>param. (Param_Name param = ''allow_ip'' \<or> Param_Name param = ''allow_ip6'')
                         \<and> Param_ConfigFile param = ''astats.config'') params)))"

section \<open>The rule assembler: createRulesOld\<close>

text \<open>
  The input records carry the fields that \<^verbatim>\<open>createRulesOld\<close> reads. The output records
  are those of package \<^verbatim>\<open>remapdata\<close>, with the fields that \<^verbatim>\<open>createRulesOld\<close> writes;
  their field names are prefixed (\<open>To_\<close>, \<open>Rule_\<close>, \<open>Rules_\<close>) because the three structs
  share names. A pointer field is an option, a Go set \<^verbatim>\<open>map[int]struct{}\<close> a set, and the
  zero value of a struct has empty strings, \<open>None\<close>, empty maps, \<open>0\<close> and \<open>False\<close>.
\<close>

record DeliveryService =
  XMLID :: string
  Protocol :: int
  QStringIgnore :: int
  CDNName :: string
  Type :: string
  EdgeHeaderRewrite :: string
  RemapText :: string
  OrgServerFQDN :: string
  DSCP :: int

record DeliveryServiceRegex =
  Pattern :: string

record CDN =
  CDN_DomainName :: string

record CDNSSLKeys =
  Hostname :: string

datatype ParentSelectionType = ParentSelectionTypeConsistentHash

datatype PluginsSharedKey = RemapTextKey

record 'u RemapRuleTo =
  To_URL :: string
  To_Weight :: "real option"
  To_RetryNum :: "int option"
  To_ProxyURL :: "'u option"
  To_RetryCodes :: "int set"
  To_Timeout :: "int option"

record 'u RemapRule =
  Rule_Name :: string
  Rule_From :: string
  Rule_CertificateFile :: string
  Rule_CertificateKeyFile :: string
  Rule_PluginsShared :: "PluginsSharedKey \<rightharpoonup> string"
  Rule_To :: "'u RemapRuleTo list"
  Rule_RetryNum :: "int option"
  Rule_Timeout :: "int option"
  Rule_RetryCodes :: "int set"
  Rule_QueryString :: QueryStringRule
  Rule_DSCP :: int
  Rule_ConnectionClose :: bool
  Rule_ParentSelection :: "ParentSelectionType option"
  Rule_Allow :: "IPNet list"
  Rule_Plugins :: "string \<rightharpoonup> ModHdrs"

record 'u RemapRules =
  Rules :: "'u RemapRule list"
  Rules_RetryCodes :: "int set"
  Rules_Timeout :: "int option"
  Rules_ParentSelection :: "ParentSelectionType option"
  Rules_Stats_Allow :: "IPNet list"
  Rules_Plugins :: "string \<rightharpoonup> ModHdrs"

definition DefaultRuleWeight :: real where "DefaultRuleWeight = 1"
definition DefaultRetryNum :: int where "DefaultRetryNum = 5"
text \<open>A \<^verbatim>\<open>time.Duration\<close> counts nanoseconds.\<close>
definition DefaultTimeout :: int where "DefaultTimeout = 1000000 * 5000"
definition DefaultRuleConnectionClose :: bool where "DefaultRuleConnectionClose = False"
definition DefaultRuleParentSelection :: ParentSelectionType where
  "DefaultRuleParentSelection = ParentSelectionTypeConsistentHash"
definition DefaultRetryCodes :: "int set" where "DefaultRetryCodes = {}"

definition emptyRule :: "'u RemapRule" where
  "emptyRule =
     \<lparr>Rule_Name = [], Rule_From = [], Rule_CertificateFile = [], Rule_CertificateKeyFile = [],
      Rule_PluginsShared = Map.empty, Rule_To = [], Rule_RetryNum = None, Rule_Timeout = None,
      Rule_RetryCodes = {}, Rule_QueryString = \<lparr>Remap = False, Cache = False\<rparr>, Rule_DSCP = 0,
      Rule_ConnectionClose = False, Rule_ParentSelection = None, Rule_Allow = [],
      Rule_Plugins = Map.empty\<rparr>"

text \<open>The path separator is the one of Unix.\<close>

definition getCertFileName :: "CDNSSLKeys \<Rightarrow> string \<Rightarrow> string" where
  "getCertFileName cert dir = dir @ ''/'' @ RemoveAll (Hostname cert) ''*.'' @ ''.crt''"

definition getCertKeyFileName :: "CDNSSLKeys \<Rightarrow> string \<Rightarrow> string" where
  "getCertKeyFileName cert dir = dir @ ''/'' @ RemoveAll (Hostname cert) ''*.'' @ ''.key''"

text \<open>
  \<^verbatim>\<open>createRulesOld\<close> is four nested loops, each a function here; a \<^verbatim>\<open>return\<close> with an
  error inside a loop is \<open>Inl\<close> and ends all of them.

  \<^item> \<^verbatim>\<open>url.Parse\<close> is the parameter \<open>urlParse\<close>, \<open>None\<close> where it returns an error.
  \<^item> \<^verbatim>\<open>json.Marshal\<close> of a string cannot fail; the shared plugin map keeps the remap text in
    place of its JSON encoding.
  \<^item> Writing the certificate files and the lines printed to the console change nothing in the
    value returned (a failed write is only printed), and are left out.

  The innermost loop, over the parents, appends one destination to the rule and, in the same
  iteration, sets the policy fields of the rule.
\<close>

fun createRulesOld_parents ::
  "(string \<Rightarrow> 'u option) \<Rightarrow> DeliveryService \<Rightarrow> string \<Rightarrow> ProtocolStr \<Rightarrow> QueryStringRule \<Rightarrow>
   IPNet list \<Rightarrow> ModHdrs \<Rightarrow> ModHdrs \<Rightarrow> Server list \<Rightarrow> 'u RemapRule \<Rightarrow> error + 'u RemapRule" where
  "createRulesOld_parents urlParse ds dsType protocolStr queryStringRule acl
       toClientHeaders toOriginHeaders [] rule = Inr rule"
| "createRulesOld_parents urlParse ds dsType protocolStr queryStringRule acl
       toClientHeaders toOriginHeaders (parent # parents) rule =
     (case buildTo parent (To protocolStr) (OrgServerFQDN ds) dsType of (to, proxyURLStr) \<Rightarrow>
        (case urlParse proxyURLStr of
           None \<Rightarrow> Inl (ProxyURLParseError (XMLID ds) (HostName parent) proxyURLStr)
         | Some proxyURL \<Rightarrow>
             (let ruleTo = \<lparr>To_URL = to, To_Weight = Some DefaultRuleWeight,
                            To_RetryNum = Some DefaultRetryNum, To_ProxyURL = Some proxyURL,
                            To_RetryCodes = DefaultRetryCodes, To_Timeout = Some DefaultTimeout\<rparr>
              in createRulesOld_parents urlParse ds dsType protocolStr queryStringRule acl
                   toClientHeaders toOriginHeaders parents
                   (rule\<lparr>Rule_To := Rule_To rule @ [ruleTo],
                         Rule_RetryNum := Some DefaultRetryNum,
                         Rule_Timeout := Some DefaultTimeout,
                         Rule_RetryCodes := DefaultRetryCodes,
                         Rule_QueryString := queryStringRule,
                         Rule_DSCP := DSCP ds,
                         Rule_ConnectionClose := DefaultRuleConnectionClose,
                         Rule_ParentSelection := Some DefaultRuleParentSelection,
                         Rule_Allow := acl,
                         Rule_Plugins := [''modify_headers'' \<mapsto> toClientHeaders,
                                          ''modify_parent_request_headers'' \<mapsto> toOriginHeaders],
                         Rule_PluginsShared := (Rule_PluginsShared rule)(RemapTextKey \<mapsto> RemapText ds)\<rparr>))))"

text \<open>
  The rule of one regex before the loop over the parents: the zero rule with its name, its
  \<^verbatim>\<open>From\<close>, the certificate files when the scheme is \<^verbatim>\<open>https\<close> and the delivery service
  has a certificate, and the empty shared plugin map.
\<close>

definition newRule ::
  "string \<Rightarrow> DeliveryService \<Rightarrow> string \<Rightarrow> CDN \<Rightarrow> CDNSSLKeys option \<Rightarrow> string \<Rightarrow> ProtocolStr \<Rightarrow>
   string \<Rightarrow> bool \<Rightarrow> 'u RemapRule" where
  "newRule hostname ds dsType cdn cert certDir protocolStr pattern patternLiteralRegex =
     (let rule = emptyRule
            \<lparr>Rule_Name := XMLID ds @ ''.'' @ From protocolStr @ ''.'' @ To protocolStr @ ''.'' @ pattern,
             Rule_From := buildFrom (From protocolStr) pattern patternLiteralRegex hostname
                            dsType (CDN_DomainName cdn)\<rparr>
      in case cert of
           Some c \<Rightarrow>
             if From protocolStr = ''https''
             then rule\<lparr>Rule_CertificateFile := getCertFileName c certDir,
                       Rule_CertificateKeyFile := getCertKeyFileName c certDir\<rparr>
             else rule
         | None \<Rightarrow> rule)"

text \<open>The loop over the regexes of the delivery service: one rule for each.\<close>

fun createRulesOld_regexes ::
  "(string \<Rightarrow> 'u option) \<Rightarrow> string \<Rightarrow> DeliveryService \<Rightarrow> string \<Rightarrow> CDN \<Rightarrow> CDNSSLKeys option \<Rightarrow>
   string \<Rightarrow> ProtocolStr \<Rightarrow> QueryStringRule \<Rightarrow> IPNet list \<Rightarrow> ModHdrs \<Rightarrow> ModHdrs \<Rightarrow> Server list \<Rightarrow>
   DeliveryServiceRegex list \<Rightarrow> 'u RemapRule list \<Rightarrow> error + 'u RemapRule list" where
  "createRulesOld_regexes urlParse hostname ds dsType cdn cert certDir protocolStr queryStringRule
       acl toClientHeaders toOriginHeaders parents [] rules = Inr rules"
| "createRulesOld_regexes urlParse hostname ds dsType cdn cert certDir protocolStr queryStringRule
       acl toClientHeaders toOriginHeaders parents (dsRegex # regexes) rules =
     (case trimLiteralRegex (Pattern dsRegex) of
        Inl e \<Rightarrow> Inl e
      | Inr (pattern, patternLiteralRegex) \<Rightarrow>
          (case createRulesOld_parents urlParse ds dsType protocolStr queryStringRule acl
                  toClientHeaders toOriginHeaders parents
                  (newRule hostname ds dsType cdn cert certDir protocolStr pattern
                     patternLiteralRegex) of
             Inl e \<Rightarrow> Inl e
           | Inr rule \<Rightarrow>
               createRulesOld_regexes urlParse hostname ds dsType cdn cert certDir protocolStr
                 queryStringRule acl toClientHeaders toOriginHeaders parents regexes
                 (rules @ [rule])))"

text \<open>
  The loop over the protocol pairs; the regexes of the delivery service are looked up in
  each iteration, and their absence ends the run.
\<close>

fun createRulesOld_protocols ::
  "(string \<Rightarrow> 'u option) \<Rightarrow> string \<Rightarrow> DeliveryService \<Rightarrow> string \<Rightarrow> CDN \<Rightarrow> CDNSSLKeys option \<Rightarrow>
   string \<Rightarrow> (string \<rightharpoonup> DeliveryServiceRegex list) \<Rightarrow> QueryStringRule \<Rightarrow> IPNet list \<Rightarrow>
   ModHdrs \<Rightarrow> ModHdrs \<Rightarrow> Server list \<Rightarrow> ProtocolStr list \<Rightarrow> 'u RemapRule list \<Rightarrow>
   error + 'u RemapRule list" where
  "createRulesOld_protocols urlParse hostname ds dsType cdn cert certDir dsRegexes queryStringRule
       acl toClientHeaders toOriginHeaders parents [] rules = Inr rules"
| "createRulesOld_protocols urlParse hostname ds dsType cdn cert certDir dsRegexes queryStringRule
       acl toClientHeaders toOriginHeaders parents (protocolStr # protocolStrs) rules =
     (case dsRegexes (XMLID ds) of
        None \<Rightarrow> Inl (NoRegexes (XMLID ds))
      | Some regexes \<Rightarrow>
          (case createRulesOld_regexes urlParse hostname ds dsType cdn cert certDir protocolStr
                  queryStringRule acl toClientHeaders toOriginHeaders parents regexes rules of
             Inl e \<Rightarrow> Inl e
           | Inr rules' \<Rightarrow>
               createRulesOld_protocols urlParse hostname ds dsType cdn cert certDir dsRegexes
                 queryStringRule acl toClientHeaders toOriginHeaders parents protocolStrs rules'))"

text \<open>
  The body of the loop over the delivery services, from the rules made so far to the rules
  after this delivery service. \<^verbatim>\<open>continue\<close> returns the rules unchanged.
\<close>

definition createRulesOld_ds ::
  "(string \<Rightarrow> 'u option) \<Rightarrow> string \<Rightarrow> Server list \<Rightarrow> (string \<rightharpoonup> DeliveryServiceRegex list) \<Rightarrow>
   (string \<rightharpoonup> CDN) \<Rightarrow> (string \<rightharpoonup> CDNSSLKeys) \<Rightarrow> string \<Rightarrow> DeliveryService \<Rightarrow>
   'u RemapRule list \<Rightarrow> error + 'u RemapRule list" where
  "createRulesOld_ds urlParse hostname parents dsRegexes cdns dsCerts certDir ds rules =
     (let protocol = Protocol ds
      in case getQueryStringRule (QStringIgnore ds) of
           Inl err \<Rightarrow> Inl (QueryStringRuleError (XMLID ds) err)
         | Inr queryStringRule \<Rightarrow>
             (case cdns (CDNName ds) of
                None \<Rightarrow> Inl (CDNNotFound (XMLID ds) (CDNName ds))
              | Some cdn \<Rightarrow>
                  (let protocolStrs = protocolStrsOf protocol;
                       cert = dsCerts (XMLID ds);
                       dsType = ToLower (Type ds)
                   in if \<not> HasPrefix dsType ''http'' \<and> \<not> HasPrefix dsType ''dns'' then Inr rules
                      else case makeModHdrs (EdgeHeaderRewrite ds) (RemapText ds) of
                             Inl err \<Rightarrow> Inl (MakingHeaders (XMLID ds) err)
                           | Inr (toClientHeaders, toOriginHeaders) \<Rightarrow>
                               (case makeACL (RemapText ds) of
                                  Inl err \<Rightarrow> Inr rules
                                | Inr acl \<Rightarrow>
                                    createRulesOld_protocols urlParse hostname ds dsType cdn cert
                                      certDir dsRegexes queryStringRule acl toClientHeaders
                                      toOriginHeaders parents protocolStrs rules))))"

fun createRulesOld_dses ::
  "(string \<Rightarrow> 'u option) \<Rightarrow> string \<Rightarrow> Server list \<Rightarrow> (string \<rightharpoonup> DeliveryServiceRegex list) \<Rightarrow>
   (string \<rightharpoonup> CDN) \<Rightarrow> (string \<rightharpoonup> CDNSSLKeys) \<Rightarrow> string \<Rightarrow> DeliveryService list \<Rightarrow>
   'u RemapRule list \<Rightarrow> error + 'u RemapRule list" where
  "createRulesOld_dses urlParse hostname parents dsRegexes cdns dsCerts certDir [] rules = Inr rules"
| "createRulesOld_dses urlParse hostname parents dsRegexes cdns dsCerts certDir (ds # dses) rules =
     (case createRulesOld_ds urlParse hostname parents dsRegexes cdns dsCerts certDir ds rules of
        Inl e \<Rightarrow> Inl e
      | Inr rules' \<Rightarrow>
          createRulesOld_dses urlParse hostname parents dsRegexes cdns dsCerts certDir dses rules')"

definition createRulesOld ::
  "(string \<Rightarrow> 'u option) \<Rightarrow> string \<Rightarrow> DeliveryService list \<Rightarrow> Server list \<Rightarrow>
   (string \<rightharpoonup> DeliveryServiceRegex list) \<Rightarrow> (string \<rightharpoonup> CDN) \<Rightarrow> Parameter list \<Rightarrow>
   (string \<rightharpoonup> CDNSSLKeys) \<Rightarrow> string \<Rightarrow> error + 'u RemapRules" where
  "createRulesOld urlParse hostname dses parents dsRegexes cdns hostParams dsCerts certDir =
     (case getAllowIP hostParams of
        Inl err \<Rightarrow> Inl (GettingAllowedIPs err)
      | Inr allowedIPs \<Rightarrow>
          (case createRulesOld_dses urlParse hostname parents dsRegexes cdns dsCerts certDir dses [] of
             Inl e \<Rightarrow> Inl e
           | Inr rules \<Rightarrow>
               Inr \<lparr>Rules = rules,
                    Rules_RetryCodes = DefaultRetryCodes,
                    Rules_Timeout = Some DefaultTimeout,
                    Rules_ParentSelection = Some DefaultRuleParentSelection,
                    Rules_Stats_Allow = allowedIPs,
                    Rules_Plugins = [''modify_response_headers_global'' \<mapsto>
                                      \<lparr>Set = [\<lparr>Name = ''Server'', Value = ''Grove/0.33''\<rparr>], Drop = []\<rparr>]\<rparr>))"

section \<open>Conditions and example inputs used in the statements\<close>

text \<open>
  \<open>proxyURLsParse\<close> says that \<^verbatim>\<open>url.Parse\<close> accepts the proxy URL that \<^verbatim>\<open>buildTo\<close> makes
  for each of the parents (the URL does not depend on the protocol or the origin). The
  example delivery service has the dual protocol and two regexes.
\<close>

definition proxyURLsParse :: "(string \<Rightarrow> 'u option) \<Rightarrow> Server list \<Rightarrow> string \<Rightarrow> bool" where
  "proxyURLsParse urlParse parents dsType \<longleftrightarrow>
     list_all (\<lambda>p. urlParse (snd (buildTo p [] [] dsType)) \<noteq> None) parents"

definition example_ds :: DeliveryService where
  "example_ds = \<lparr>XMLID = ''ds1'', Protocol = 2, QStringIgnore = 0, CDNName = ''cdn1'',
     Type = ''HTTP'', EdgeHeaderRewrite = [], RemapText = [],
     OrgServerFQDN = ''http://origin.example.com'', DSCP = 0\<rparr>"

definition example_regexes :: "string \<rightharpoonup> DeliveryServiceRegex list" where
  "example_regexes = map_of [(''ds1'', [\<lparr>Pattern = ''a.example.com''\<rparr>, \<lparr>Pattern = ''b.example.com''\<rparr>])]"

definition example_cdns :: "string \<rightharpoonup> CDN" where
  "example_cdns = map_of [(''cdn1'', \<lparr>CDN_DomainName = ''cdn.example.net''\<rparr>)]"

definition example_parent :: Server where
  "example_parent = \<lparr>HostName = ''mid1'', DomainName = ''example.net'', TCPPort = 80,
     Cachegroup = ''mid-east''\<rparr>"

text \<open>
  A line of a header-rewrite policy that \<^verbatim>\<open>makeModHdrs\<close> refuses: one token, or two tokens
  of which the first is \<^verbatim>\<open>set-header\<close> or \<^verbatim>\<open>add-header\<close>.
\<close>

definition malformedLine :: "string \<Rightarrow> bool" where
  "malformedLine line \<longleftrightarrow>
     (let parts = lineParts line
      in length parts = 1
         \<or> (length parts = 2 \<and> (parts ! 0 = ''set-header'' \<or> parts ! 0 = ''add-header'')))"

section \<open>Rules for running the definitions on concrete inputs\<close>

lemma parseIPv4_fields_numeral:
  "parseIPv4_fields (numeral k) later s =
     (if s = [] then None
      else if later \<and> hd s \<noteq> CHR ''.'' then None
      else let s1 = (if later then tl s else s)
           in case dtoi s1 of (n, c, ok) \<Rightarrow>
                if \<not> ok \<or> n > 0xFF then None
                else (case parseIPv4_fields (pred_numeral k) True (drop c s1) of
                        None \<Rightarrow> None
                      | Some (p, rest) \<Rightarrow> Some (of_nat n # p, rest)))"
  by (simp add: numeral_eq_Suc)

lemma CIDRMask_bytes_numeral:
  "CIDRMask_bytes n (numeral k) =
     (if 8 \<le> n then 0xff # CIDRMask_bytes (n - 8) (pred_numeral k)
      else NOT (drop_bit n (0xff :: 8 word)) # CIDRMask_bytes 0 (pred_numeral k))"
  by (simp add: numeral_eq_Suc)

lemma replicate_numeral_unfold: "replicate (numeral k) x = x # replicate (pred_numeral k) x"
  by (simp add: numeral_eq_Suc)

lemmas str_eval = Fields_def isSpace_def HasPrefix_def HasSuffix_def Split_def TrimPrefix_def
  TrimSuffix_def Trim_def ToLower_def lowerChar_def char_of_def bit_Suc_0_iff

lemmas net_eval = ParseIP_def parseIPv4_def parseIPv6_def xtoi_def hexVal_def dtoi_def isDigit_def
  big_def v4InV6Prefix_def parseIPv4_fields_numeral CIDRMask_bytes_numeral replicate_numeral_unfold
  CIDRMask_def IP_Mask_def IP_Equal_def allFF_def

section \<open>The header-rewrite compiler on the condition-and-set example\<close>

text \<open>
  Claim C4, as the code has it. A line is what stands between two \<^verbatim>\<open>__RETURN__\<close>
  terminators, and a line that starts with \<^verbatim>\<open>cond\<close> only sets the direction: whatever
  follows the hook on the same line is not read. With the condition and the
  \<^verbatim>\<open>set-header\<close> operation on two lines, \<^verbatim>\<open>makeModHdrs\<close> succeeds, the client-bound list
  has the one set operation \<open>X-Test: foo\<close> and the origin-bound list has no operation.
\<close>

theorem makeModHdrs_condition_then_set:
  "makeModHdrs ''cond %{SEND_RESPONSE_HDR_HOOK} __RETURN__ set-header X-Test foo'' remapTXT =
     Inr (\<lparr>Set = [\<lparr>Name = ''X-Test'', Value = ''foo''\<rparr>], Drop = []\<rparr>, \<lparr>Set = [], Drop = []\<rparr>)"
  by (simp add: makeModHdrs_def modHdrsLine_def emptyModHdrs_def str_eval)

text \<open>
  On the input of the claim, a single line, the \<^verbatim>\<open>set-header\<close> words are part of the
  condition line: the call succeeds and both lists are empty.
\<close>

theorem makeModHdrs_one_line_counterexample:
  "makeModHdrs ''cond %{SEND_RESPONSE_HDR_HOOK} set-header X-Test foo'' [] =
     Inr (\<lparr>Set = [], Drop = []\<rparr>, \<lparr>Set = [], Drop = []\<rparr>)"
  by (simp add: makeModHdrs_def modHdrsLine_def emptyModHdrs_def str_eval)

section \<open>Parents of a host\<close>

text \<open>
  Claim C9. When the host is in the server map and its cache group is in the cache-group
  map, but no server's cache group is the parent name of that cache group, \<^verbatim>\<open>getParents\<close>
  returns the empty sequence and no error. When the host is not in the server map, or it
  is but its cache group is not in the cache-group map, \<^verbatim>\<open>getParents\<close> returns a lookup
  error.
\<close>

theorem getParents_empty_or_lookup_error:
  "(map_of servers hostname = Some server \<and> cachegroups (Cachegroup server) = Some cachegroup
      \<and> (\<forall>s \<in> set (map snd servers). Cachegroup s \<noteq> ParentName cachegroup)
      \<longrightarrow> getParents hostname servers cachegroups = Inr [])
   \<and> (map_of servers hostname = None
      \<longrightarrow> getParents hostname servers cachegroups = Inl HostnameNotFound)
   \<and> (map_of servers hostname = Some server \<and> cachegroups (Cachegroup server) = None
      \<longrightarrow> getParents hostname servers cachegroups = Inl (CachegroupNotFound (Cachegroup server)))"
proof (intro conjI impI)
  assume h: "map_of servers hostname = Some server \<and> cachegroups (Cachegroup server) = Some cachegroup
      \<and> (\<forall>s \<in> set (map snd servers). Cachegroup s \<noteq> ParentName cachegroup)"
  then have "filter (\<lambda>s. Cachegroup s = ParentName cachegroup) (map snd servers) = []"
    by (simp add: filter_empty_conv)
  with h show "getParents hostname servers cachegroups = Inr []"
    by (simp add: getParents_def)
next
  assume "map_of servers hostname = None"
  then show "getParents hostname servers cachegroups = Inl HostnameNotFound"
    by (simp add: getParents_def)
next
  assume "map_of servers hostname = Some server \<and> cachegroups (Cachegroup server) = None"
  then show "getParents hostname servers cachegroups = Inl (CachegroupNotFound (Cachegroup server))"
    by (simp add: getParents_def)
qed

text \<open>
  The three cases on a map with the one server \<open>edge1\<close> of cache group \<open>edge-east\<close>, whose
  parent cache group \<open>mid-east\<close> has no server.
\<close>

theorem getParents_witness:
  "getParents ''edge1''
      [(''edge1'', \<lparr>HostName = ''edge1'', DomainName = ''example.net'', TCPPort = 80,
                    Cachegroup = ''edge-east''\<rparr>)]
      (map_of [(''edge-east'', \<lparr>ParentName = ''mid-east''\<rparr>)]) = Inr []
   \<and> getParents ''edge2''
      [(''edge1'', \<lparr>HostName = ''edge1'', DomainName = ''example.net'', TCPPort = 80,
                    Cachegroup = ''edge-east''\<rparr>)]
      (map_of [(''edge-east'', \<lparr>ParentName = ''mid-east''\<rparr>)]) = Inl HostnameNotFound
   \<and> getParents ''edge1''
      [(''edge1'', \<lparr>HostName = ''edge1'', DomainName = ''example.net'', TCPPort = 80,
                    Cachegroup = ''edge-east''\<rparr>)]
      (map_of []) = Inl (CachegroupNotFound ''edge-east'')"
proof -
  let ?e = "\<lparr>HostName = ''edge1'', DomainName = ''example.net'', TCPPort = 80,
             Cachegroup = ''edge-east''\<rparr>"
  let ?cg = "\<lparr>ParentName = ''mid-east''\<rparr>"
  have a: "getParents ''edge1'' [(''edge1'', ?e)] (map_of [(''edge-east'', ?cg)]) = Inr []"
    using getParents_empty_or_lookup_error
      [of "[(''edge1'', ?e)]" "''edge1''" ?e "map_of [(''edge-east'', ?cg)]" ?cg]
    by simp
  have b: "getParents ''edge2'' [(''edge1'', ?e)] (map_of [(''edge-east'', ?cg)])
      = Inl HostnameNotFound"
    using getParents_empty_or_lookup_error
      [of "[(''edge1'', ?e)]" "''edge2''" ?e "map_of [(''edge-east'', ?cg)]" ?cg]
    by simp
  have c: "getParents ''edge1'' [(''edge1'', ?e)] (map_of [])
      = Inl (CachegroupNotFound ''edge-east'')"
    using getParents_empty_or_lookup_error
      [of "[(''edge1'', ?e)]" "''edge1''" ?e "map_of []" ?cg]
    by simp
  from a b c show ?thesis by simp
qed

section \<open>The loops of createRulesOld\<close>

text \<open>
  What each loop returns: the loop over the parents keeps the name and the \<^verbatim>\<open>From\<close> of the
  rule and fails only on a proxy URL that does not parse; the loops over the regexes and the
  protocol pairs append their rules to the rules made so far.
\<close>

lemma parents_succeed:
  "proxyURLsParse urlParse parents dsType \<Longrightarrow>
   \<not> isl (createRulesOld_parents urlParse ds dsType ps q acl c o' parents rule)"
proof (induction parents arbitrary: rule)
  case Nil
  then show ?case by simp
next
  case (Cons p parents)
  then show ?case
    by (auto simp: proxyURLsParse_def buildTo_def)
qed

lemma parents_keep:
  "createRulesOld_parents urlParse ds dsType ps q acl c o' parents rule = Inr r \<Longrightarrow>
   Rule_Name r = Rule_Name rule \<and> Rule_From r = Rule_From rule
   \<and> Rule_CertificateFile r = Rule_CertificateFile rule
   \<and> Rule_CertificateKeyFile r = Rule_CertificateKeyFile rule
   \<and> length (Rule_To r) = length (Rule_To rule) + length parents"
proof (induction parents arbitrary: rule)
  case Nil
  then show ?case by simp
next
  case (Cons p parents)
  then show ?case
    by (auto simp: buildTo_def split: option.splits)
qed

lemma parents_QueryString:
  "createRulesOld_parents urlParse ds dsType ps q acl c o' parents rule = Inr r \<Longrightarrow>
   parents \<noteq> [] \<or> Rule_QueryString rule = q \<Longrightarrow> Rule_QueryString r = q"
proof (induction parents arbitrary: rule)
  case Nil
  then show ?case by simp
next
  case (Cons p parents)
  then show ?case
    by (auto simp: buildTo_def split: option.splits)
qed

lemma not_isl_Inr: "\<not> isl x \<Longrightarrow> \<exists>r. x = Inr r"
  by (cases x) auto

lemma newRule_Name:
  "Rule_Name (newRule hostname ds dsType cdn cert certDir ps p l :: 'u RemapRule)
     = XMLID ds @ ''.'' @ From ps @ ''.'' @ To ps @ ''.'' @ p"
  by (simp add: newRule_def Let_def split: option.splits)

lemma newRule_From:
  "Rule_From (newRule hostname ds dsType cdn cert certDir ps p l :: 'u RemapRule)
     = buildFrom (From ps) p l hostname dsType (CDN_DomainName cdn)"
  by (simp add: newRule_def Let_def split: option.splits)

lemma regexes_succeed:
  "proxyURLsParse urlParse parents dsType \<Longrightarrow>
   list_all (\<lambda>rg. \<not> isl (trimLiteralRegex (Pattern rg))) regexes \<Longrightarrow>
   \<not> isl (createRulesOld_regexes urlParse hostname ds dsType cdn cert certDir ps q acl c o'
            parents regexes rules)"
proof (induction regexes arbitrary: rules)
  case Nil
  then show ?case by simp
next
  case (Cons rg regexes)
  from Cons.prems obtain p l where t: "trimLiteralRegex (Pattern rg) = Inr (p, l)"
    by (cases "trimLiteralRegex (Pattern rg)") auto
  from Cons.prems have rest: "list_all (\<lambda>rg. \<not> isl (trimLiteralRegex (Pattern rg))) regexes"
    by simp
  obtain rule where r: "createRulesOld_parents urlParse ds dsType ps q acl c o' parents
      (newRule hostname ds dsType cdn cert certDir ps p l) = Inr rule"
    using not_isl_Inr[OF parents_succeed[OF Cons.prems(1)]] by blast
  show ?case
    using t r Cons.IH[OF Cons.prems(1) rest] by simp
qed

lemma regexes_append:
  "createRulesOld_regexes urlParse hostname ds dsType cdn cert certDir ps q acl c o'
     parents regexes rules = Inr rules' \<Longrightarrow>
   \<exists>new. rules' = rules @ new
     \<and> map Rule_Name new =
         map (\<lambda>rg. XMLID ds @ ''.'' @ From ps @ ''.'' @ To ps @ ''.''
                    @ fst (projr (trimLiteralRegex (Pattern rg)))) regexes
     \<and> (parents \<noteq> [] \<longrightarrow> list_all (\<lambda>r. Rule_QueryString r = q) new)"
proof (induction regexes arbitrary: rules)
  case Nil
  then show ?case by simp
next
  case (Cons rg regexes)
  from Cons.prems obtain p l where t: "trimLiteralRegex (Pattern rg) = Inr (p, l)"
    by (cases "trimLiteralRegex (Pattern rg)") auto
  obtain rule where r: "createRulesOld_parents urlParse ds dsType ps q acl c o' parents
      (newRule hostname ds dsType cdn cert certDir ps p l) = Inr rule"
  proof (cases "createRulesOld_parents urlParse ds dsType ps q acl c o' parents
      (newRule hostname ds dsType cdn cert certDir ps p l)")
    case (Inl e)
    with Cons.prems t show ?thesis by simp
  next
    case (Inr rule)
    then show ?thesis using that by blast
  qed
  have rest: "createRulesOld_regexes urlParse hostname ds dsType cdn cert certDir ps q acl c o'
                 parents regexes (rules @ [rule]) = Inr rules'"
    using Cons.prems t r by simp
  from parents_keep[OF r]
  have name: "Rule_Name rule = XMLID ds @ ''.'' @ From ps @ ''.'' @ To ps @ ''.'' @ p"
    by (simp add: newRule_Name)
  have qs: "parents \<noteq> [] \<Longrightarrow> Rule_QueryString rule = q"
    using parents_QueryString[OF r] by simp
  from Cons.IH[OF rest] obtain new where
    new: "rules' = (rules @ [rule]) @ new"
      "map Rule_Name new =
         map (\<lambda>rg. XMLID ds @ ''.'' @ From ps @ ''.'' @ To ps @ ''.''
                    @ fst (projr (trimLiteralRegex (Pattern rg)))) regexes"
      "parents \<noteq> [] \<longrightarrow> list_all (\<lambda>r. Rule_QueryString r = q) new"
    by blast
  show ?case
  proof (intro exI[of _ "rule # new"] conjI)
    show "rules' = rules @ rule # new" using new(1) by simp
    show "map Rule_Name (rule # new) =
         map (\<lambda>rg. XMLID ds @ ''.'' @ From ps @ ''.'' @ To ps @ ''.''
                    @ fst (projr (trimLiteralRegex (Pattern rg)))) (rg # regexes)"
      using new(2) name t by simp
    show "parents \<noteq> [] \<longrightarrow> list_all (\<lambda>r. Rule_QueryString r = q) (rule # new)"
      using new(3) qs by simp
  qed
qed

lemma protocols_succeed:
  "proxyURLsParse urlParse parents dsType \<Longrightarrow>
   dsRegexes (XMLID ds) = Some regexes \<Longrightarrow>
   list_all (\<lambda>rg. \<not> isl (trimLiteralRegex (Pattern rg))) regexes \<Longrightarrow>
   \<not> isl (createRulesOld_protocols urlParse hostname ds dsType cdn cert certDir dsRegexes q acl
            c o' parents pss rules)"
proof (induction pss arbitrary: rules)
  case Nil
  then show ?case by simp
next
  case (Cons ps pss)
  obtain rules1 where r: "createRulesOld_regexes urlParse hostname ds dsType cdn cert certDir ps
      q acl c o' parents regexes rules = Inr rules1"
    using not_isl_Inr[OF regexes_succeed[OF Cons.prems(1) Cons.prems(3)]] by blast
  show ?case
    using Cons.prems(2) r Cons.IH[OF Cons.prems] by simp
qed

lemma protocols_append:
  "createRulesOld_protocols urlParse hostname ds dsType cdn cert certDir dsRegexes q acl
     c o' parents pss rules = Inr rules' \<Longrightarrow>
   dsRegexes (XMLID ds) = Some regexes \<or> pss = [] \<Longrightarrow>
   \<exists>new. rules' = rules @ new
     \<and> map Rule_Name new =
         concat (map (\<lambda>ps. map (\<lambda>rg. XMLID ds @ ''.'' @ From ps @ ''.'' @ To ps @ ''.''
                    @ fst (projr (trimLiteralRegex (Pattern rg)))) regexes) pss)
     \<and> (parents \<noteq> [] \<longrightarrow> list_all (\<lambda>r. Rule_QueryString r = q) new)"
proof (induction pss arbitrary: rules)
  case Nil
  then show ?case by simp
next
  case (Cons ps pss)
  from Cons.prems(2) have rg: "dsRegexes (XMLID ds) = Some regexes" by simp
  obtain rules1 where
    a: "createRulesOld_regexes urlParse hostname ds dsType cdn cert certDir ps q acl c o'
          parents regexes rules = Inr rules1"
  proof (cases "createRulesOld_regexes urlParse hostname ds dsType cdn cert certDir ps q acl c o'
          parents regexes rules")
    case (Inl e)
    with Cons.prems(1) rg show ?thesis by simp
  next
    case (Inr rules1)
    then show ?thesis using that by blast
  qed
  have b: "createRulesOld_protocols urlParse hostname ds dsType cdn cert certDir dsRegexes q acl
          c o' parents pss rules1 = Inr rules'"
    using Cons.prems(1) rg a by simp
  from regexes_append[OF a] obtain new1 where
    n1: "rules1 = rules @ new1"
      "map Rule_Name new1 = map (\<lambda>rg. XMLID ds @ ''.'' @ From ps @ ''.'' @ To ps @ ''.''
                    @ fst (projr (trimLiteralRegex (Pattern rg)))) regexes"
      "parents \<noteq> [] \<longrightarrow> list_all (\<lambda>r. Rule_QueryString r = q) new1"
    by blast
  from Cons.IH[OF b] rg obtain new2 where
    n2: "rules' = rules1 @ new2"
      "map Rule_Name new2 =
         concat (map (\<lambda>ps. map (\<lambda>rg. XMLID ds @ ''.'' @ From ps @ ''.'' @ To ps @ ''.''
                    @ fst (projr (trimLiteralRegex (Pattern rg)))) regexes) pss)"
      "parents \<noteq> [] \<longrightarrow> list_all (\<lambda>r. Rule_QueryString r = q) new2"
    by blast
  show ?case
  proof (intro exI[of _ "new1 @ new2"] conjI)
    show "rules' = rules @ new1 @ new2" using n1(1) n2(1) by simp
    show "map Rule_Name (new1 @ new2) =
         concat (map (\<lambda>ps. map (\<lambda>rg. XMLID ds @ ''.'' @ From ps @ ''.'' @ To ps @ ''.''
                    @ fst (projr (trimLiteralRegex (Pattern rg)))) regexes) (ps # pss))"
      using n1(2) n2(2) by simp
    show "parents \<noteq> [] \<longrightarrow> list_all (\<lambda>r. Rule_QueryString r = q) (new1 @ new2)"
      using n1(3) n2(3) by simp
  qed
qed

lemma protocols_QueryString:
  "createRulesOld_protocols urlParse hostname ds dsType cdn cert certDir dsRegexes q acl
     c o' parents pss rules = Inr rules' \<Longrightarrow>
   \<exists>new. rules' = rules @ new \<and> (parents \<noteq> [] \<longrightarrow> list_all (\<lambda>r. Rule_QueryString r = q) new)"
proof (cases pss)
  case Nil
  assume "createRulesOld_protocols urlParse hostname ds dsType cdn cert certDir dsRegexes q acl
     c o' parents pss rules = Inr rules'"
  with Nil show ?thesis by simp
next
  case (Cons ps pss')
  assume a: "createRulesOld_protocols urlParse hostname ds dsType cdn cert certDir dsRegexes q acl
     c o' parents pss rules = Inr rules'"
  with Cons obtain regexes where "dsRegexes (XMLID ds) = Some regexes"
    by (cases "dsRegexes (XMLID ds)") auto
  with protocols_append[OF a] show ?thesis by blast
qed

lemma ds_skip:
  assumes "getQueryStringRule (QStringIgnore ds) = Inr q"
    and "cdns (CDNName ds) = Some cdn"
    and "(\<not> HasPrefix (ToLower (Type ds)) ''http'' \<and> \<not> HasPrefix (ToLower (Type ds)) ''dns'')
         \<or> (makeModHdrs (EdgeHeaderRewrite ds) (RemapText ds) = Inr hdrs
             \<and> makeACL (RemapText ds) = Inl e)"
  shows "createRulesOld_ds urlParse hostname parents dsRegexes cdns dsCerts certDir ds rules
           = Inr rules"
  using assms by (cases hdrs) (auto simp: createRulesOld_ds_def Let_def)

lemma ds_abort_headers:
  assumes "HasPrefix (ToLower (Type ds)) ''http'' \<or> HasPrefix (ToLower (Type ds)) ''dns''"
    and "makeModHdrs (EdgeHeaderRewrite ds) (RemapText ds) = Inl e"
  shows "isl (createRulesOld_ds urlParse hostname parents dsRegexes cdns dsCerts certDir ds rules)"
  using assms by (auto simp: createRulesOld_ds_def Let_def split: sum.splits option.splits)

lemma ds_abort_lookup:
  assumes "isl (getQueryStringRule (QStringIgnore ds)) \<or> cdns (CDNName ds) = None"
  shows "isl (createRulesOld_ds urlParse hostname parents dsRegexes cdns dsCerts certDir ds rules)"
  using assms by (auto simp: createRulesOld_ds_def Let_def split: sum.splits option.splits)

lemma ds_abort_regexes:
  assumes "HasPrefix (ToLower (Type ds)) ''http'' \<or> HasPrefix (ToLower (Type ds)) ''dns''"
    and "makeModHdrs (EdgeHeaderRewrite ds) (RemapText ds) = Inr hdrs"
    and "makeACL (RemapText ds) = Inr acl"
    and "protocolStrsOf (Protocol ds) \<noteq> []"
    and "dsRegexes (XMLID ds) = None"
  shows "isl (createRulesOld_ds urlParse hostname parents dsRegexes cdns dsCerts certDir ds rules)"
proof -
  obtain ps pss where p: "protocolStrsOf (Protocol ds) = ps # pss"
    using assms(4) by (cases "protocolStrsOf (Protocol ds)") auto
  show ?thesis
    using assms(1,2,3,5) p
    by (cases hdrs) (auto simp: createRulesOld_ds_def Let_def split: sum.splits option.splits)
qed

lemma dses_append:
  "createRulesOld_dses urlParse hostname parents dsRegexes cdns dsCerts certDir (xs @ ys) rules =
     (case createRulesOld_dses urlParse hostname parents dsRegexes cdns dsCerts certDir xs rules of
        Inl e \<Rightarrow> Inl e
      | Inr rules' \<Rightarrow>
          createRulesOld_dses urlParse hostname parents dsRegexes cdns dsCerts certDir ys rules')"
  by (induction xs arbitrary: rules) (auto split: sum.splits)

lemma createRulesOld_skip:
  assumes "\<And>rules. createRulesOld_ds urlParse hostname parents dsRegexes cdns dsCerts certDir ds rules
             = Inr rules"
  shows "createRulesOld urlParse hostname (pre @ ds # post) parents dsRegexes cdns hostParams
           dsCerts certDir
         = createRulesOld urlParse hostname (pre @ post) parents dsRegexes cdns hostParams
           dsCerts certDir"
  by (simp add: createRulesOld_def dses_append assms split: sum.splits)

lemma dses_abort:
  assumes "ds \<in> set dses"
    and "\<And>rules. isl (createRulesOld_ds urlParse hostname parents dsRegexes cdns dsCerts certDir ds rules)"
  shows "isl (createRulesOld_dses urlParse hostname parents dsRegexes cdns dsCerts certDir dses rules)"
  using assms(1)
proof (induction dses arbitrary: rules)
  case Nil
  then show ?case by simp
next
  case (Cons d dses)
  show ?case
  proof (cases "d = ds")
    case True
    then show ?thesis using assms(2)[of rules] by (auto split: sum.splits)
  next
    case False
    with Cons have "\<And>rules. isl (createRulesOld_dses urlParse hostname parents dsRegexes cdns dsCerts certDir dses rules)"
      by simp
    then show ?thesis by (auto split: sum.splits)
  qed
qed

lemma createRulesOld_abort:
  assumes "ds \<in> set dses"
    and "\<And>rules. isl (createRulesOld_ds urlParse hostname parents dsRegexes cdns dsCerts certDir ds rules)"
  shows "isl (createRulesOld urlParse hostname dses parents dsRegexes cdns hostParams dsCerts certDir)"
  using dses_abort[OF assms, of "[]"]
  by (auto simp: createRulesOld_def split: sum.splits)

lemma ds_QueryString:
  assumes "createRulesOld_ds urlParse hostname parents dsRegexes cdns dsCerts certDir ds rules
             = Inr rules'"
  shows "\<exists>new. rules' = rules @ new
     \<and> (parents \<noteq> [] \<longrightarrow>
          list_all (\<lambda>r. Inr (Rule_QueryString r) = getQueryStringRule (QStringIgnore ds)) new)"
proof -
  from assms obtain q where q: "getQueryStringRule (QStringIgnore ds) = Inr q"
    by (cases "getQueryStringRule (QStringIgnore ds)") (auto simp: createRulesOld_ds_def)
  from assms q obtain cdn where cdn: "cdns (CDNName ds) = Some cdn"
    by (cases "cdns (CDNName ds)") (auto simp: createRulesOld_ds_def)
  show ?thesis
  proof (cases "\<exists>c o' acl. makeModHdrs (EdgeHeaderRewrite ds) (RemapText ds) = Inr (c, o')
      \<and> makeACL (RemapText ds) = Inr acl
      \<and> (HasPrefix (ToLower (Type ds)) ''http'' \<or> HasPrefix (ToLower (Type ds)) ''dns'')")
    case True
    then obtain c o' acl where h: "makeModHdrs (EdgeHeaderRewrite ds) (RemapText ds) = Inr (c, o')"
      "makeACL (RemapText ds) = Inr acl"
      "HasPrefix (ToLower (Type ds)) ''http'' \<or> HasPrefix (ToLower (Type ds)) ''dns''"
      by blast
    have "createRulesOld_protocols urlParse hostname ds (ToLower (Type ds)) cdn (dsCerts (XMLID ds))
            certDir dsRegexes q acl c o' parents (protocolStrsOf (Protocol ds)) rules = Inr rules'"
      using assms q cdn h by (auto simp: createRulesOld_ds_def Let_def)
    from protocols_QueryString[OF this] q show ?thesis
      by simp
  next
    case False
    then have "rules' = rules"
      using assms q cdn
      by (auto simp: createRulesOld_ds_def Let_def split: sum.splits if_splits)
    then show ?thesis by simp
  qed
qed

lemmas example_defs = example_ds_def example_regexes_def example_cdns_def example_parent_def

lemmas protocol_consts = ProtocolHTTP_def ProtocolHTTPS_def ProtocolHTTPAndHTTPS_def
  ProtocolHTTPToHTTPS_def

lemmas qs_consts = DeliveryServiceQueryStringCacheAndRemap_def
  DeliveryServiceQueryStringNoCacheRemap_def DeliveryServiceQueryStringNoCacheNoRemap_def

lemma makeModHdrs_empty: "makeModHdrs [] [] = Inr (emptyModHdrs, emptyModHdrs)"
  by (simp add: makeModHdrs_def)

lemma makeACL_empty: "makeACL [] = Inr []"
  by (simp add: makeACL_def str_eval)

lemma getAllowIP_empty: "getAllowIP [] = Inr []"
  by (simp add: getAllowIP_def makeAllowIP_def)

section \<open>Protocol expansion and the number of rules\<close>

text \<open>
  Claim C1, as the code has it. The protocol expansion is HTTP to (http, http), HTTPS to
  (https, https), dual to (http, http) and (https, https), upgrade to (http, https) and
  (https, https). A delivery service whose protocol is dual, whose type prefix is
  recognized, whose ACL and header policies compile and which has exactly two regexes gets
  exactly four rules, one for each pair of a protocol pair and a regex, in that order,
  provided that nothing else ends the run first: its query-string setting is a known value,
  its CDN is in the CDN map, neither pattern makes \<^verbatim>\<open>trimLiteralRegex\<close> panic, and the
  proxy URL of every parent parses. The body of the loop then appends the four rules to the
  rules made so far, and \<^verbatim>\<open>createRulesOld\<close> on that delivery service alone returns four
  rules when the allowed addresses of the host parse.
\<close>

theorem dual_protocol_two_regexes_four_rules:
  assumes "Protocol ds = ProtocolHTTPAndHTTPS"
    and "HasPrefix (ToLower (Type ds)) ''http'' \<or> HasPrefix (ToLower (Type ds)) ''dns''"
    and "makeACL (RemapText ds) = Inr acl"
    and "makeModHdrs (EdgeHeaderRewrite ds) (RemapText ds) = Inr hdrs"
    and "dsRegexes (XMLID ds) = Some [r1, r2]"
    and "getQueryStringRule (QStringIgnore ds) = Inr q"
    and "cdns (CDNName ds) = Some cdn"
    and "trimLiteralRegex (Pattern r1) = Inr (p1, l1)"
    and "trimLiteralRegex (Pattern r2) = Inr (p2, l2)"
    and "proxyURLsParse urlParse parents (ToLower (Type ds))"
    and "getAllowIP hostParams = Inr allowedIPs"
  shows "(\<exists>new. createRulesOld_ds urlParse hostname parents dsRegexes cdns dsCerts certDir ds rules
                 = Inr (rules @ new)
            \<and> length new = 4
            \<and> map Rule_Name new =
                [XMLID ds @ ''.http.http.'' @ p1, XMLID ds @ ''.http.http.'' @ p2,
                 XMLID ds @ ''.https.https.'' @ p1, XMLID ds @ ''.https.https.'' @ p2])
       \<and> (\<exists>rr. createRulesOld urlParse hostname [ds] parents dsRegexes cdns hostParams dsCerts certDir
                 = Inr rr \<and> length (Rules rr) = 4)
       \<and> protocolStrsOf ProtocolHTTP = [\<lparr>From = ''http'', To = ''http''\<rparr>]
       \<and> protocolStrsOf ProtocolHTTPS = [\<lparr>From = ''https'', To = ''https''\<rparr>]
       \<and> protocolStrsOf ProtocolHTTPAndHTTPS
           = [\<lparr>From = ''http'', To = ''http''\<rparr>, \<lparr>From = ''https'', To = ''https''\<rparr>]
       \<and> protocolStrsOf ProtocolHTTPToHTTPS
           = [\<lparr>From = ''http'', To = ''https''\<rparr>, \<lparr>From = ''https'', To = ''https''\<rparr>]"
proof -
  obtain c o' where hdrs: "hdrs = (c, o')" by (cases hdrs)
  let ?pss = "[\<lparr>From = ''http'', To = ''http''\<rparr>, \<lparr>From = ''https'', To = ''https''\<rparr>]"
  have pss: "protocolStrsOf (Protocol ds) = ?pss"
    using assms(1) by (simp add: protocolStrsOf_def protocol_consts)
  have trims: "list_all (\<lambda>rg. \<not> isl (trimLiteralRegex (Pattern rg))) [r1, r2]"
    using assms(8,9) by simp
  have step: "\<And>rules. \<exists>new. createRulesOld_ds urlParse hostname parents dsRegexes cdns dsCerts
                 certDir ds rules = Inr (rules @ new)
            \<and> length new = 4
            \<and> map Rule_Name new =
                [XMLID ds @ ''.http.http.'' @ p1, XMLID ds @ ''.http.http.'' @ p2,
                 XMLID ds @ ''.https.https.'' @ p1, XMLID ds @ ''.https.https.'' @ p2]"
  proof -
    fix rules :: "'a RemapRule list"
    have eq: "createRulesOld_ds urlParse hostname parents dsRegexes cdns dsCerts certDir ds rules
        = createRulesOld_protocols urlParse hostname ds (ToLower (Type ds)) cdn (dsCerts (XMLID ds))
            certDir dsRegexes q acl c o' parents ?pss rules"
      using assms(2,3,4,6,7) pss hdrs by (auto simp: createRulesOld_ds_def Let_def)
    obtain rules' where r: "createRulesOld_protocols urlParse hostname ds (ToLower (Type ds)) cdn
        (dsCerts (XMLID ds)) certDir dsRegexes q acl c o' parents ?pss rules = Inr rules'"
      using not_isl_Inr[OF protocols_succeed[where dsRegexes=dsRegexes and ds=ds, OF assms(10) assms(5) trims]] by blast
    from protocols_append[OF r, of "[r1, r2]"] assms(5) obtain new where
      new: "rules' = rules @ new"
        "map Rule_Name new =
           concat (map (\<lambda>ps. map (\<lambda>rg. XMLID ds @ ''.'' @ From ps @ ''.'' @ To ps @ ''.''
                      @ fst (projr (trimLiteralRegex (Pattern rg)))) [r1, r2]) ?pss)"
      by blast
    have names: "map Rule_Name new =
                [XMLID ds @ ''.http.http.'' @ p1, XMLID ds @ ''.http.http.'' @ p2,
                 XMLID ds @ ''.https.https.'' @ p1, XMLID ds @ ''.https.https.'' @ p2]"
      using new(2) assms(8,9) by simp
    then have "length (map Rule_Name new) = 4" by simp
    then have len: "length new = 4" by simp
    show "\<exists>new. createRulesOld_ds urlParse hostname parents dsRegexes cdns dsCerts
                 certDir ds rules = Inr (rules @ new)
            \<and> length new = 4
            \<and> map Rule_Name new =
                [XMLID ds @ ''.http.http.'' @ p1, XMLID ds @ ''.http.http.'' @ p2,
                 XMLID ds @ ''.https.https.'' @ p1, XMLID ds @ ''.https.https.'' @ p2]"
      using eq r new(1) names len by (intro exI[of _ new]) simp
  qed
  from step[of "[]"] obtain new where
    n: "createRulesOld_ds urlParse hostname parents dsRegexes cdns dsCerts certDir ds [] = Inr new"
      "length new = 4"
    by auto
  have whole: "\<exists>rr. createRulesOld urlParse hostname [ds] parents dsRegexes cdns hostParams dsCerts
                 certDir = Inr rr \<and> length (Rules rr) = 4"
    using n assms(11) by (simp add: createRulesOld_def)
  have table: "protocolStrsOf ProtocolHTTP = [\<lparr>From = ''http'', To = ''http''\<rparr>]
       \<and> protocolStrsOf ProtocolHTTPS = [\<lparr>From = ''https'', To = ''https''\<rparr>]
       \<and> protocolStrsOf ProtocolHTTPAndHTTPS
           = [\<lparr>From = ''http'', To = ''http''\<rparr>, \<lparr>From = ''https'', To = ''https''\<rparr>]
       \<and> protocolStrsOf ProtocolHTTPToHTTPS
           = [\<lparr>From = ''http'', To = ''https''\<rparr>, \<lparr>From = ''https'', To = ''https''\<rparr>]"
    by (simp add: protocolStrsOf_def protocol_consts)
  from step[of rules] whole table show ?thesis by blast
qed

text \<open>The example inputs meet the conditions.\<close>

lemma example_trim_a: "trimLiteralRegex ''a.example.com'' = Inr (''a.example.com'', False)"
  by (simp add: trimLiteralRegex_def literalPrefix_def literalSuffix_def HasPrefix_def)

lemma example_trim_b: "trimLiteralRegex ''b.example.com'' = Inr (''b.example.com'', False)"
  by (simp add: trimLiteralRegex_def literalPrefix_def literalSuffix_def HasPrefix_def)

lemma example_type: "ToLower (Type example_ds) = ''http''"
  by (simp add: example_ds_def str_eval)

lemma example_proxy: "proxyURLsParse (Some :: string \<Rightarrow> string option) ps t"
  by (simp add: proxyURLsParse_def list_all_iff)

text \<open>
  The theorem on \<open>example_ds\<close>, with one parent and \<^verbatim>\<open>url.Parse\<close> accepting every string.
\<close>

theorem dual_protocol_two_regexes_witness:
  "(\<exists>new. createRulesOld_ds (Some :: string \<Rightarrow> string option) ''edge1'' [example_parent]
             example_regexes example_cdns Map.empty ''/etc/grove/ssl'' example_ds [] = Inr new
        \<and> length new = 4
        \<and> map Rule_Name new =
            [''ds1.http.http.a.example.com'', ''ds1.http.http.b.example.com'',
             ''ds1.https.https.a.example.com'', ''ds1.https.https.b.example.com''])
   \<and> (\<exists>rr. createRulesOld (Some :: string \<Rightarrow> string option) ''edge1'' [example_ds] [example_parent]
             example_regexes example_cdns [] Map.empty ''/etc/grove/ssl'' = Inr rr
        \<and> length (Rules rr) = 4)"
proof -
  have h1: "Protocol example_ds = ProtocolHTTPAndHTTPS"
    by (simp add: example_ds_def protocol_consts)
  have h2: "HasPrefix (ToLower (Type example_ds)) ''http'' \<or> HasPrefix (ToLower (Type example_ds)) ''dns''"
    by (simp add: example_type HasPrefix_def)
  have h3: "makeACL (RemapText example_ds) = Inr []"
    by (simp add: example_ds_def makeACL_empty)
  have h4: "makeModHdrs (EdgeHeaderRewrite example_ds) (RemapText example_ds)
      = Inr (emptyModHdrs, emptyModHdrs)"
    by (simp add: example_ds_def makeModHdrs_empty)
  have h5: "example_regexes (XMLID example_ds)
      = Some [\<lparr>Pattern = ''a.example.com''\<rparr>, \<lparr>Pattern = ''b.example.com''\<rparr>]"
    by (simp add: example_defs)
  have h6: "getQueryStringRule (QStringIgnore example_ds) = Inr \<lparr>Remap = True, Cache = True\<rparr>"
    by (simp add: example_ds_def getQueryStringRule_def qs_consts)
  have h7: "example_cdns (CDNName example_ds) = Some \<lparr>CDN_DomainName = ''cdn.example.net''\<rparr>"
    by (simp add: example_defs)
  have h8: "trimLiteralRegex (Pattern \<lparr>Pattern = ''a.example.com''\<rparr>) = Inr (''a.example.com'', False)"
    by (simp add: example_trim_a)
  have h9: "trimLiteralRegex (Pattern \<lparr>Pattern = ''b.example.com''\<rparr>) = Inr (''b.example.com'', False)"
    by (simp add: example_trim_b)
  have h10: "proxyURLsParse (Some :: string \<Rightarrow> string option) [example_parent]
      (ToLower (Type example_ds))"
    by (rule example_proxy)
  have nm: "XMLID example_ds = ''ds1''" by (simp add: example_ds_def)
  from dual_protocol_two_regexes_four_rules
    [where ds = example_ds and dsRegexes = example_regexes and cdns = example_cdns
       and hostname = "''edge1''" and dsCerts = Map.empty and certDir = "''/etc/grove/ssl''"
       and rules = "[]",
     OF h1 h2 h3 h4 h5 h6 h7 h8 h9 h10 getAllowIP_empty]
  show ?thesis by (simp add: nm)
qed

lemma ds_succeed:
  assumes "HasPrefix (ToLower (Type ds)) ''http'' \<or> HasPrefix (ToLower (Type ds)) ''dns''"
    and "makeACL (RemapText ds) = Inr acl"
    and "makeModHdrs (EdgeHeaderRewrite ds) (RemapText ds) = Inr hdrs"
    and "dsRegexes (XMLID ds) = Some regexes"
    and "getQueryStringRule (QStringIgnore ds) = Inr q"
    and "cdns (CDNName ds) = Some cdn"
    and "list_all (\<lambda>rg. \<not> isl (trimLiteralRegex (Pattern rg))) regexes"
    and "proxyURLsParse urlParse parents (ToLower (Type ds))"
  shows "\<not> isl (createRulesOld_ds urlParse hostname parents dsRegexes cdns dsCerts certDir ds rules)"
proof -
  obtain c o' where hdrs: "hdrs = (c, o')" by (cases hdrs)
  have eq: "createRulesOld_ds urlParse hostname parents dsRegexes cdns dsCerts certDir ds rules
      = createRulesOld_protocols urlParse hostname ds (ToLower (Type ds)) cdn (dsCerts (XMLID ds))
          certDir dsRegexes q acl c o' parents (protocolStrsOf (Protocol ds)) rules"
    using assms(1,2,3,5,6) hdrs by (auto simp: createRulesOld_ds_def Let_def)
  show ?thesis
    unfolding eq
    by (rule protocols_succeed[where dsRegexes=dsRegexes and ds=ds, OF assms(8) assms(4) assms(7)])
qed

lemma example_ds_succeed:
  "\<not> isl (createRulesOld_ds (Some :: string \<Rightarrow> string option) ''edge1'' [example_parent]
           example_regexes example_cdns Map.empty ''/etc/grove/ssl'' example_ds rules)"
proof (rule ds_succeed[where dsRegexes = example_regexes and cdns = example_cdns])
  show "HasPrefix (ToLower (Type example_ds)) ''http'' \<or> HasPrefix (ToLower (Type example_ds)) ''dns''"
    by (simp add: example_type HasPrefix_def)
  show "makeACL (RemapText example_ds) = Inr []"
    by (simp add: example_ds_def makeACL_empty)
  show "makeModHdrs (EdgeHeaderRewrite example_ds) (RemapText example_ds)
      = Inr (emptyModHdrs, emptyModHdrs)"
    by (simp add: example_ds_def makeModHdrs_empty)
  show "example_regexes (XMLID example_ds)
      = Some [\<lparr>Pattern = ''a.example.com''\<rparr>, \<lparr>Pattern = ''b.example.com''\<rparr>]"
    by (simp add: example_defs)
  show "getQueryStringRule (QStringIgnore example_ds) = Inr \<lparr>Remap = True, Cache = True\<rparr>"
    by (simp add: example_ds_def getQueryStringRule_def qs_consts)
  show "example_cdns (CDNName example_ds) = Some \<lparr>CDN_DomainName = ''cdn.example.net''\<rparr>"
    by (simp add: example_defs)
  show "list_all (\<lambda>rg. \<not> isl (trimLiteralRegex (Pattern rg)))
      [\<lparr>Pattern = ''a.example.com''\<rparr>, \<lparr>Pattern = ''b.example.com''\<rparr>]"
    by (simp add: example_trim_a example_trim_b)
  show "proxyURLsParse (Some :: string \<Rightarrow> string option) [example_parent]
      (ToLower (Type example_ds))"
    by (rule example_proxy)
qed

text \<open>
  The claim without the added conditions fails: \<open>example_ds\<close> with the query-string setting
  3 has the dual protocol, a recognized type, policies that compile and two regexes, and
  \<^verbatim>\<open>createRulesOld\<close> returns an error and no rule.
\<close>

theorem dual_protocol_unknown_qstring_counterexample:
  "Protocol (example_ds\<lparr>QStringIgnore := 3\<rparr>) = ProtocolHTTPAndHTTPS
   \<and> HasPrefix (ToLower (Type (example_ds\<lparr>QStringIgnore := 3\<rparr>))) ''http''
   \<and> makeACL (RemapText (example_ds\<lparr>QStringIgnore := 3\<rparr>)) = Inr []
   \<and> makeModHdrs (EdgeHeaderRewrite (example_ds\<lparr>QStringIgnore := 3\<rparr>))
        (RemapText (example_ds\<lparr>QStringIgnore := 3\<rparr>)) = Inr (emptyModHdrs, emptyModHdrs)
   \<and> map_option length (example_regexes (XMLID (example_ds\<lparr>QStringIgnore := 3\<rparr>))) = Some 2
   \<and> createRulesOld (Some :: string \<Rightarrow> string option) ''edge1'' [example_ds\<lparr>QStringIgnore := 3\<rparr>]
        [example_parent] example_regexes example_cdns [] Map.empty ''/etc/grove/ssl''
      = Inl (QueryStringRuleError ''ds1'' (UnknownQStringIgnore 3))"
  by (simp add: example_defs protocol_consts str_eval makeACL_empty makeModHdrs_empty
      createRulesOld_def getAllowIP_empty createRulesOld_ds_def getQueryStringRule_def qs_consts)

section \<open>Which failures of one delivery service end the run\<close>

text \<open>
  Claim C2, as the code has it. Two failures of one delivery service are passed over: a type
  prefix that is not recognized and an ACL text that does not parse (the header policy
  compiling). For a delivery service with a known query-string setting and a CDN in the CDN
  map, \<^verbatim>\<open>createRulesOld\<close> then returns what it returns for the batch without that delivery
  service. An unknown query-string setting, a CDN that is not in the CDN map, a header
  policy that does not compile (the type prefix being recognized), and a missing regex entry
  for a delivery service that reaches the loop over the protocol pairs end the whole run
  with an error, wherever the delivery service stands in the batch.
\<close>

theorem skipped_or_aborting_delivery_service:
  "(getQueryStringRule (QStringIgnore ds) = Inr q \<and> cdns (CDNName ds) = Some cdn
      \<and> ((\<not> HasPrefix (ToLower (Type ds)) ''http'' \<and> \<not> HasPrefix (ToLower (Type ds)) ''dns'')
          \<or> (makeModHdrs (EdgeHeaderRewrite ds) (RemapText ds) = Inr hdrs
              \<and> makeACL (RemapText ds) = Inl e))
      \<longrightarrow> createRulesOld urlParse hostname (pre @ ds # post) parents dsRegexes cdns hostParams
             dsCerts certDir
          = createRulesOld urlParse hostname (pre @ post) parents dsRegexes cdns hostParams
             dsCerts certDir)
   \<and> (d \<in> set dses
      \<and> (isl (getQueryStringRule (QStringIgnore d)) \<or> cdns (CDNName d) = None
          \<or> ((HasPrefix (ToLower (Type d)) ''http'' \<or> HasPrefix (ToLower (Type d)) ''dns'')
              \<and> makeModHdrs (EdgeHeaderRewrite d) (RemapText d) = Inl e')
          \<or> ((HasPrefix (ToLower (Type d)) ''http'' \<or> HasPrefix (ToLower (Type d)) ''dns'')
              \<and> makeModHdrs (EdgeHeaderRewrite d) (RemapText d) = Inr hdrs'
              \<and> makeACL (RemapText d) = Inr acl
              \<and> protocolStrsOf (Protocol d) \<noteq> []
              \<and> dsRegexes (XMLID d) = None))
      \<longrightarrow> isl (createRulesOld urlParse hostname dses parents dsRegexes cdns hostParams
             dsCerts certDir))"
proof (intro conjI impI)
  assume h: "getQueryStringRule (QStringIgnore ds) = Inr q \<and> cdns (CDNName ds) = Some cdn
      \<and> ((\<not> HasPrefix (ToLower (Type ds)) ''http'' \<and> \<not> HasPrefix (ToLower (Type ds)) ''dns'')
          \<or> (makeModHdrs (EdgeHeaderRewrite ds) (RemapText ds) = Inr hdrs
              \<and> makeACL (RemapText ds) = Inl e))"
  then have "\<And>rules. createRulesOld_ds urlParse hostname parents dsRegexes cdns dsCerts certDir
      ds rules = Inr rules"
    using ds_skip[where cdns = cdns and ds = ds] by blast
  then show "createRulesOld urlParse hostname (pre @ ds # post) parents dsRegexes cdns hostParams
             dsCerts certDir
          = createRulesOld urlParse hostname (pre @ post) parents dsRegexes cdns hostParams
             dsCerts certDir"
    by (rule createRulesOld_skip)
next
  assume h: "d \<in> set dses
      \<and> (isl (getQueryStringRule (QStringIgnore d)) \<or> cdns (CDNName d) = None
          \<or> ((HasPrefix (ToLower (Type d)) ''http'' \<or> HasPrefix (ToLower (Type d)) ''dns'')
              \<and> makeModHdrs (EdgeHeaderRewrite d) (RemapText d) = Inl e')
          \<or> ((HasPrefix (ToLower (Type d)) ''http'' \<or> HasPrefix (ToLower (Type d)) ''dns'')
              \<and> makeModHdrs (EdgeHeaderRewrite d) (RemapText d) = Inr hdrs'
              \<and> makeACL (RemapText d) = Inr acl
              \<and> protocolStrsOf (Protocol d) \<noteq> []
              \<and> dsRegexes (XMLID d) = None))"
  have "\<And>rules. isl (createRulesOld_ds urlParse hostname parents dsRegexes cdns dsCerts
      certDir d rules)"
  proof -
    fix rules :: "'a RemapRule list"
    from h consider
      (lookup) "isl (getQueryStringRule (QStringIgnore d)) \<or> cdns (CDNName d) = None"
      | (headers) "HasPrefix (ToLower (Type d)) ''http'' \<or> HasPrefix (ToLower (Type d)) ''dns''"
          "makeModHdrs (EdgeHeaderRewrite d) (RemapText d) = Inl e'"
      | (regexes) "HasPrefix (ToLower (Type d)) ''http'' \<or> HasPrefix (ToLower (Type d)) ''dns''"
          "makeModHdrs (EdgeHeaderRewrite d) (RemapText d) = Inr hdrs'"
          "makeACL (RemapText d) = Inr acl"
          "protocolStrsOf (Protocol d) \<noteq> []"
          "dsRegexes (XMLID d) = None"
      by argo
    then show "isl (createRulesOld_ds urlParse hostname parents dsRegexes cdns dsCerts
      certDir d rules)"
    proof cases
      case lookup
      then show ?thesis by (rule ds_abort_lookup)
    next
      case headers
      then show ?thesis by (rule ds_abort_headers)
    next
      case regexes
      then show ?thesis by (rule ds_abort_regexes)
    qed
  qed
  with h show "isl (createRulesOld urlParse hostname dses parents dsRegexes cdns hostParams
             dsCerts certDir)"
    using createRulesOld_abort by blast
qed

text \<open>
  The claim fails for a delivery service that has no regex entry: its header policy
  compiles, and the batch of it and \<open>example_ds\<close> returns an error instead of the rules of
  \<open>example_ds\<close>.
\<close>

theorem missing_regexes_abort_counterexample:
  "makeModHdrs (EdgeHeaderRewrite (example_ds\<lparr>XMLID := ''ds0''\<rparr>))
       (RemapText (example_ds\<lparr>XMLID := ''ds0''\<rparr>)) = Inr (emptyModHdrs, emptyModHdrs)
   \<and> createRulesOld (Some :: string \<Rightarrow> string option) ''edge1''
        [example_ds\<lparr>XMLID := ''ds0''\<rparr>, example_ds]
        [example_parent] example_regexes example_cdns [] Map.empty ''/etc/grove/ssl''
      = Inl (NoRegexes ''ds0'')"
  by (simp add: example_defs protocol_consts str_eval makeACL_empty makeModHdrs_empty
      createRulesOld_def getAllowIP_empty createRulesOld_ds_def getQueryStringRule_def qs_consts
      protocolStrsOf_def)

lemma example_unknown_type:
  "\<not> HasPrefix (ToLower (Type (example_ds\<lparr>Type := ''UNKNOWN_TYPE''\<rparr>))) ''http''
   \<and> \<not> HasPrefix (ToLower (Type (example_ds\<lparr>Type := ''UNKNOWN_TYPE''\<rparr>))) ''dns''"
  by (simp add: example_ds_def str_eval)

text \<open>
  Both parts on batches of two: \<open>example_ds\<close> with an unknown type is passed over, so the
  batch gives what \<open>example_ds\<close> alone gives, which is a rule set; \<open>example_ds\<close> with a CDN
  that is not in the map ends the run.
\<close>

theorem skipped_or_aborting_witness:
  "createRulesOld (Some :: string \<Rightarrow> string option) ''edge1''
       [example_ds\<lparr>Type := ''UNKNOWN_TYPE''\<rparr>, example_ds]
       [example_parent] example_regexes example_cdns [] Map.empty ''/etc/grove/ssl''
     = createRulesOld Some ''edge1'' [example_ds]
       [example_parent] example_regexes example_cdns [] Map.empty ''/etc/grove/ssl''
   \<and> \<not> isl (createRulesOld (Some :: string \<Rightarrow> string option) ''edge1'' [example_ds]
       [example_parent] example_regexes example_cdns [] Map.empty ''/etc/grove/ssl'')
   \<and> isl (createRulesOld (Some :: string \<Rightarrow> string option) ''edge1''
       [example_ds\<lparr>CDNName := ''cdn9''\<rparr>, example_ds]
       [example_parent] example_regexes example_cdns [] Map.empty ''/etc/grove/ssl'')"
proof -
  let ?u = "example_ds\<lparr>Type := ''UNKNOWN_TYPE''\<rparr>"
  let ?b = "example_ds\<lparr>CDNName := ''cdn9''\<rparr>"
  have q: "getQueryStringRule (QStringIgnore ?u) = Inr \<lparr>Remap = True, Cache = True\<rparr>"
    by (simp add: example_ds_def getQueryStringRule_def qs_consts)
  have c: "example_cdns (CDNName ?u) = Some \<lparr>CDN_DomainName = ''cdn.example.net''\<rparr>"
    by (simp add: example_defs)
  have a: "createRulesOld (Some :: string \<Rightarrow> string option) ''edge1'' ([] @ ?u # [example_ds])
       [example_parent] example_regexes example_cdns [] Map.empty ''/etc/grove/ssl''
     = createRulesOld Some ''edge1'' ([] @ [example_ds])
       [example_parent] example_regexes example_cdns [] Map.empty ''/etc/grove/ssl''"
    using skipped_or_aborting_delivery_service
      [where ds = ?u and cdns = example_cdns and dsRegexes = example_regexes
         and pre = "[]" and post = "[example_ds]" and urlParse = "Some :: string \<Rightarrow> string option"
         and hostname = "''edge1''" and parents = "[example_parent]" and hostParams = "[]"
         and dsCerts = Map.empty and certDir = "''/etc/grove/ssl''"
         and q = "\<lparr>Remap = True, Cache = True\<rparr>" and cdn = "\<lparr>CDN_DomainName = ''cdn.example.net''\<rparr>"]
      q c example_unknown_type
    by blast
  have ok: "\<not> isl (createRulesOld (Some :: string \<Rightarrow> string option) ''edge1'' [example_ds]
       [example_parent] example_regexes example_cdns [] Map.empty ''/etc/grove/ssl'')"
    using example_ds_succeed[of "[]"]
    by (auto simp: createRulesOld_def getAllowIP_empty split: sum.splits)
  have n: "example_cdns (CDNName ?b) = None"
    by (simp add: example_defs)
  have b: "isl (createRulesOld (Some :: string \<Rightarrow> string option) ''edge1'' [?b, example_ds]
       [example_parent] example_regexes example_cdns [] Map.empty ''/etc/grove/ssl'')"
    using skipped_or_aborting_delivery_service
      [where d = ?b and dses = "[?b, example_ds]" and cdns = example_cdns
         and dsRegexes = example_regexes and urlParse = "Some :: string \<Rightarrow> string option"
         and hostname = "''edge1''" and parents = "[example_parent]" and hostParams = "[]"
         and dsCerts = Map.empty and certDir = "''/etc/grove/ssl''"]
      n
    by simp
  from a ok b show ?thesis by simp
qed

section \<open>ACL errors are passed over, header errors end the run\<close>

text \<open>
  Claim C3, as the code has it. When \<^verbatim>\<open>makeACL\<close> returns an error on the remap text of a
  delivery service whose query-string setting, CDN and header policy are in order,
  \<^verbatim>\<open>createRulesOld\<close> makes no rule for it and goes on: the result is that of the batch
  without the delivery service. When the type prefix of a delivery service of the batch is
  recognized and \<^verbatim>\<open>makeModHdrs\<close> returns an error on its header-rewrite text, the run ends
  (\<open>Inl\<close>: a returned error, no rule set). A delivery service whose type prefix is not
  recognized is passed over before its header policy is read.
\<close>

theorem acl_error_skips_header_error_aborts:
  "(getQueryStringRule (QStringIgnore ds) = Inr q \<and> cdns (CDNName ds) = Some cdn
      \<and> makeModHdrs (EdgeHeaderRewrite ds) (RemapText ds) = Inr hdrs
      \<and> makeACL (RemapText ds) = Inl e
      \<longrightarrow> createRulesOld urlParse hostname (pre @ ds # post) parents dsRegexes cdns hostParams
             dsCerts certDir
          = createRulesOld urlParse hostname (pre @ post) parents dsRegexes cdns hostParams
             dsCerts certDir)
   \<and> (d \<in> set dses
      \<and> (HasPrefix (ToLower (Type d)) ''http'' \<or> HasPrefix (ToLower (Type d)) ''dns'')
      \<and> makeModHdrs (EdgeHeaderRewrite d) (RemapText d) = Inl e'
      \<longrightarrow> isl (createRulesOld urlParse hostname dses parents dsRegexes cdns hostParams
             dsCerts certDir))"
proof (intro conjI impI)
  assume h: "getQueryStringRule (QStringIgnore ds) = Inr q \<and> cdns (CDNName ds) = Some cdn
      \<and> makeModHdrs (EdgeHeaderRewrite ds) (RemapText ds) = Inr hdrs
      \<and> makeACL (RemapText ds) = Inl e"
  then have "\<And>rules. createRulesOld_ds urlParse hostname parents dsRegexes cdns dsCerts certDir
      ds rules = Inr rules"
    using ds_skip[where cdns = cdns and ds = ds] by blast
  then show "createRulesOld urlParse hostname (pre @ ds # post) parents dsRegexes cdns hostParams
             dsCerts certDir
          = createRulesOld urlParse hostname (pre @ post) parents dsRegexes cdns hostParams
             dsCerts certDir"
    by (rule createRulesOld_skip)
next
  assume h: "d \<in> set dses
      \<and> (HasPrefix (ToLower (Type d)) ''http'' \<or> HasPrefix (ToLower (Type d)) ''dns'')
      \<and> makeModHdrs (EdgeHeaderRewrite d) (RemapText d) = Inl e'"
  then have "\<And>rules. isl (createRulesOld_ds urlParse hostname parents dsRegexes cdns dsCerts
      certDir d rules)"
    using ds_abort_headers[where ds = d] by blast
  with h show "isl (createRulesOld urlParse hostname dses parents dsRegexes cdns hostParams
             dsCerts certDir)"
    using createRulesOld_abort by blast
qed

lemma makeACL_no_tokens: "makeACL ''@action=allow'' = Inl (MalformedRemapTxt ''@action=allow'')"
  by (simp add: makeACL_def str_eval)

lemma makeModHdrs_short_set: "makeModHdrs ''set-header X'' [] = Inl (MalformedLine ''set-header X'')"
  by (simp add: makeModHdrs_def modHdrsLine_def emptyModHdrs_def str_eval)

lemma makeModHdrs_no_edge: "makeModHdrs [] ''@action=allow'' = Inr (emptyModHdrs, emptyModHdrs)"
  by (simp add: makeModHdrs_def str_eval)

text \<open>
  Both parts on batches of two: the remap text \<^verbatim>\<open>@action=allow\<close>, with no token, is an ACL
  error and the delivery service is passed over; the header-rewrite text
  \<^verbatim>\<open>set-header X\<close> is a header error and ends the run.
\<close>

theorem acl_error_skips_header_error_aborts_witness:
  "createRulesOld (Some :: string \<Rightarrow> string option) ''edge1''
       [example_ds\<lparr>RemapText := ''@action=allow''\<rparr>, example_ds]
       [example_parent] example_regexes example_cdns [] Map.empty ''/etc/grove/ssl''
     = createRulesOld Some ''edge1'' [example_ds]
       [example_parent] example_regexes example_cdns [] Map.empty ''/etc/grove/ssl''
   \<and> \<not> isl (createRulesOld (Some :: string \<Rightarrow> string option) ''edge1'' [example_ds]
       [example_parent] example_regexes example_cdns [] Map.empty ''/etc/grove/ssl'')
   \<and> isl (createRulesOld (Some :: string \<Rightarrow> string option) ''edge1''
       [example_ds, example_ds\<lparr>EdgeHeaderRewrite := ''set-header X''\<rparr>]
       [example_parent] example_regexes example_cdns [] Map.empty ''/etc/grove/ssl'')"
proof -
  let ?a = "example_ds\<lparr>RemapText := ''@action=allow''\<rparr>"
  let ?h = "example_ds\<lparr>EdgeHeaderRewrite := ''set-header X''\<rparr>"
  have q: "getQueryStringRule (QStringIgnore ?a) = Inr \<lparr>Remap = True, Cache = True\<rparr>"
    by (simp add: example_ds_def getQueryStringRule_def qs_consts)
  have c: "example_cdns (CDNName ?a) = Some \<lparr>CDN_DomainName = ''cdn.example.net''\<rparr>"
    by (simp add: example_defs)
  have m: "makeModHdrs (EdgeHeaderRewrite ?a) (RemapText ?a) = Inr (emptyModHdrs, emptyModHdrs)"
    by (simp add: example_ds_def makeModHdrs_no_edge)
  have l: "makeACL (RemapText ?a) = Inl (MalformedRemapTxt ''@action=allow'')"
    by (simp add: example_ds_def makeACL_no_tokens)
  have a: "createRulesOld (Some :: string \<Rightarrow> string option) ''edge1'' ([] @ ?a # [example_ds])
       [example_parent] example_regexes example_cdns [] Map.empty ''/etc/grove/ssl''
     = createRulesOld Some ''edge1'' ([] @ [example_ds])
       [example_parent] example_regexes example_cdns [] Map.empty ''/etc/grove/ssl''"
    using acl_error_skips_header_error_aborts
      [where ds = ?a and cdns = example_cdns and dsRegexes = example_regexes
         and pre = "[]" and post = "[example_ds]" and urlParse = "Some :: string \<Rightarrow> string option"
         and hostname = "''edge1''" and parents = "[example_parent]" and hostParams = "[]"
         and dsCerts = Map.empty and certDir = "''/etc/grove/ssl''"
         and q = "\<lparr>Remap = True, Cache = True\<rparr>" and cdn = "\<lparr>CDN_DomainName = ''cdn.example.net''\<rparr>"]
      q c m l
    by blast
  have ok: "\<not> isl (createRulesOld (Some :: string \<Rightarrow> string option) ''edge1'' [example_ds]
       [example_parent] example_regexes example_cdns [] Map.empty ''/etc/grove/ssl'')"
    using example_ds_succeed[of "[]"]
    by (auto simp: createRulesOld_def getAllowIP_empty split: sum.splits)
  have t: "HasPrefix (ToLower (Type ?h)) ''http''"
    by (simp add: example_ds_def str_eval)
  have e: "makeModHdrs (EdgeHeaderRewrite ?h) (RemapText ?h) = Inl (MalformedLine ''set-header X'')"
    by (simp add: example_ds_def makeModHdrs_short_set)
  have b: "isl (createRulesOld (Some :: string \<Rightarrow> string option) ''edge1'' [example_ds, ?h]
       [example_parent] example_regexes example_cdns [] Map.empty ''/etc/grove/ssl'')"
    using acl_error_skips_header_error_aborts
      [where d = ?h and dses = "[example_ds, ?h]" and cdns = example_cdns
         and dsRegexes = example_regexes and urlParse = "Some :: string \<Rightarrow> string option"
         and hostname = "''edge1''" and parents = "[example_parent]" and hostParams = "[]"
         and dsCerts = Map.empty and certDir = "''/etc/grove/ssl''"]
      t e
    by simp
  from a ok b show ?thesis by simp
qed

text \<open>
  The header part of the claim fails for a delivery service of an unknown type:
  \<^verbatim>\<open>makeModHdrs\<close> returns an error on its header-rewrite text, and \<^verbatim>\<open>createRulesOld\<close>
  returns a rule set, with no rule.
\<close>

theorem header_error_unknown_type_counterexample:
  "makeModHdrs
       (EdgeHeaderRewrite (example_ds\<lparr>Type := ''UNKNOWN_TYPE'', EdgeHeaderRewrite := ''set-header X''\<rparr>))
       (RemapText (example_ds\<lparr>Type := ''UNKNOWN_TYPE'', EdgeHeaderRewrite := ''set-header X''\<rparr>))
     = Inl (MalformedLine ''set-header X'')
   \<and> map_sum id Rules (createRulesOld (Some :: string \<Rightarrow> string option) ''edge1''
        [example_ds\<lparr>Type := ''UNKNOWN_TYPE'', EdgeHeaderRewrite := ''set-header X''\<rparr>]
        [example_parent] example_regexes example_cdns [] Map.empty ''/etc/grove/ssl'') = Inr []"
  by (simp add: example_defs str_eval makeModHdrs_short_set
      createRulesOld_def getAllowIP_empty createRulesOld_ds_def getQueryStringRule_def qs_consts)

section \<open>The query-string policy\<close>

text \<open>
  Claim C8, as the code has it. The settings cache-and-remap (0) and no-cache-remap (1)
  compile to remap and cache both true, no-cache-no-remap (2) to both false, and every
  other integer is an error, which ends the run of \<^verbatim>\<open>createRulesOld\<close> for a batch that
  holds such a delivery service. When there is at least one parent, every rule that the body
  of the loop adds for a delivery service carries the policy compiled from its setting.
\<close>

theorem queryString_policy:
  "getQueryStringRule q =
     (if q = DeliveryServiceQueryStringCacheAndRemap \<or> q = DeliveryServiceQueryStringNoCacheRemap
        then Inr \<lparr>Remap = True, Cache = True\<rparr>
      else if q = DeliveryServiceQueryStringNoCacheNoRemap
        then Inr \<lparr>Remap = False, Cache = False\<rparr>
      else Inl (UnknownQStringIgnore q))
   \<and> (createRulesOld_ds urlParse hostname parents dsRegexes cdns dsCerts certDir ds rules = Inr rules'
        \<and> parents \<noteq> []
      \<longrightarrow> (\<exists>new. rules' = rules @ new
            \<and> list_all (\<lambda>r. Inr (Rule_QueryString r) = getQueryStringRule (QStringIgnore ds)) new))
   \<and> (d \<in> set dses \<and> isl (getQueryStringRule (QStringIgnore d))
      \<longrightarrow> isl (createRulesOld urlParse hostname dses parents dsRegexes cdns hostParams
             dsCerts certDir))"
proof (intro conjI impI)
  show "getQueryStringRule q =
     (if q = DeliveryServiceQueryStringCacheAndRemap \<or> q = DeliveryServiceQueryStringNoCacheRemap
        then Inr \<lparr>Remap = True, Cache = True\<rparr>
      else if q = DeliveryServiceQueryStringNoCacheNoRemap
        then Inr \<lparr>Remap = False, Cache = False\<rparr>
      else Inl (UnknownQStringIgnore q))"
    by (simp add: getQueryStringRule_def qs_consts)
next
  assume "createRulesOld_ds urlParse hostname parents dsRegexes cdns dsCerts certDir ds rules
      = Inr rules' \<and> parents \<noteq> []"
  then show "\<exists>new. rules' = rules @ new
            \<and> list_all (\<lambda>r. Inr (Rule_QueryString r) = getQueryStringRule (QStringIgnore ds)) new"
    using ds_QueryString[where ds = ds and rules = rules and rules' = rules'] by blast
next
  assume h: "d \<in> set dses \<and> isl (getQueryStringRule (QStringIgnore d))"
  then have "\<And>rules. isl (createRulesOld_ds urlParse hostname parents dsRegexes cdns dsCerts
      certDir d rules)"
    using ds_abort_lookup[where cdns = cdns and ds = d] by blast
  with h show "isl (createRulesOld urlParse hostname dses parents dsRegexes cdns hostParams
             dsCerts certDir)"
    using createRulesOld_abort by blast
qed

text \<open>The setting 3 is not the no-cache-no-remap value, and it does not compile to a policy.\<close>

theorem queryString_unknown_value_counterexample:
  "getQueryStringRule 3 = Inl (UnknownQStringIgnore 3)"
  by (simp add: getQueryStringRule_def qs_consts)

text \<open>
  The settings 1 and 2, the rules of \<open>example_ds\<close> (setting 0) with one parent, and a batch
  with the setting 7.
\<close>

theorem queryString_policy_witness:
  "getQueryStringRule 1 = Inr \<lparr>Remap = True, Cache = True\<rparr>
   \<and> getQueryStringRule 2 = Inr \<lparr>Remap = False, Cache = False\<rparr>
   \<and> (\<exists>new. createRulesOld_ds (Some :: string \<Rightarrow> string option) ''edge1'' [example_parent]
             example_regexes example_cdns Map.empty ''/etc/grove/ssl'' example_ds [] = Inr new
          \<and> list_all (\<lambda>r. Rule_QueryString r = \<lparr>Remap = True, Cache = True\<rparr>) new)
   \<and> isl (createRulesOld (Some :: string \<Rightarrow> string option) ''edge1''
            [example_ds\<lparr>QStringIgnore := 7\<rparr>] [example_parent] example_regexes example_cdns []
            Map.empty ''/etc/grove/ssl'')"
proof -
  have a: "getQueryStringRule 1 = Inr \<lparr>Remap = True, Cache = True\<rparr>"
    using queryString_policy[where q = 1, THEN conjunct1] by (simp add: qs_consts)
  have b: "getQueryStringRule 2 = Inr \<lparr>Remap = False, Cache = False\<rparr>"
    using queryString_policy[where q = 2, THEN conjunct1] by (simp add: qs_consts)
  obtain new where n: "createRulesOld_ds (Some :: string \<Rightarrow> string option) ''edge1''
      [example_parent] example_regexes example_cdns Map.empty ''/etc/grove/ssl'' example_ds []
      = Inr new"
    using not_isl_Inr[OF example_ds_succeed[of "[]"]] by blast
  have q0: "getQueryStringRule (QStringIgnore example_ds) = Inr \<lparr>Remap = True, Cache = True\<rparr>"
    by (simp add: example_ds_def getQueryStringRule_def qs_consts)
  have c: "list_all (\<lambda>r. Rule_QueryString r = \<lparr>Remap = True, Cache = True\<rparr>) new"
    using queryString_policy
      [where ds = example_ds and rules = "[]" and rules' = new and parents = "[example_parent]"
         and urlParse = "Some :: string \<Rightarrow> string option" and hostname = "''edge1''"
         and dsRegexes = example_regexes and cdns = example_cdns and dsCerts = Map.empty
         and certDir = "''/etc/grove/ssl''"]
      n q0
    by simp
  have i: "isl (getQueryStringRule (QStringIgnore (example_ds\<lparr>QStringIgnore := 7\<rparr>)))"
    by (simp add: example_ds_def getQueryStringRule_def qs_consts)
  have d: "isl (createRulesOld (Some :: string \<Rightarrow> string option) ''edge1''
            [example_ds\<lparr>QStringIgnore := 7\<rparr>] [example_parent] example_regexes example_cdns []
            Map.empty ''/etc/grove/ssl'')"
    using queryString_policy
      [where d = "example_ds\<lparr>QStringIgnore := 7\<rparr>" and dses = "[example_ds\<lparr>QStringIgnore := 7\<rparr>]"
         and urlParse = "Some :: string \<Rightarrow> string option" and hostname = "''edge1''"
         and parents = "[example_parent]" and hostParams = "[]"
         and dsRegexes = example_regexes and cdns = example_cdns and dsCerts = Map.empty
         and certDir = "''/etc/grove/ssl''"]
      i
    by simp
  from a b n c d show ?thesis by blast
qed

section \<open>Pieces and tokens are parts of the text\<close>

text \<open>
  \<^verbatim>\<open>Contains\<close> is the contiguous-sublist relation, and every piece of \<^verbatim>\<open>Split\<close> and every
  token of \<^verbatim>\<open>Fields\<close> is a contiguous part of the string it was cut from.
\<close>

lemma HasPrefix_prefix: "HasPrefix s p \<longleftrightarrow> prefix p s"
proof
  assume "HasPrefix s p"
  then have "take (length p) s = p" by (simp add: HasPrefix_def)
  then show "prefix p s" by (metis take_is_prefix)
next
  assume "prefix p s"
  then show "HasPrefix s p" by (auto simp: HasPrefix_def prefix_def)
qed

lemma Contains_sublist: "Contains s sub \<longleftrightarrow> sublist sub s"
  by (induction s) (auto simp: HasPrefix_prefix sublist_Cons_right)

lemma Fields_from_sublist: "t \<in> set (Fields_from cur s) \<Longrightarrow> sublist t (rev cur @ s)"
proof (induction s arbitrary: cur)
  case Nil
  then show ?case by (auto split: if_splits)
next
  case (Cons c s)
  show ?case
  proof (cases "isSpace c")
    case True
    with Cons.prems have "t = rev cur \<or> t \<in> set (Fields_from [] s)"
      by (auto split: if_splits)
    then show ?thesis
    proof
      assume "t = rev cur"
      then show ?thesis by simp
    next
      assume "t \<in> set (Fields_from [] s)"
      then have "sublist t s" using Cons.IH[of "[]"] by simp
      then obtain ps ss where "s = ps @ t @ ss" by (auto simp: sublist_def)
      then have "rev cur @ c # s = (rev cur @ c # ps) @ t @ ss" by simp
      then show ?thesis unfolding sublist_def by blast
    qed
  next
    case False
    with Cons.prems have "t \<in> set (Fields_from (c # cur) s)" by simp
    then show ?thesis using Cons.IH[of "c # cur"] by simp
  qed
qed

lemma Fields_sublist: "t \<in> set (Fields s) \<Longrightarrow> sublist t s"
  using Fields_from_sublist[of t "[]" s] by (simp add: Fields_def)

lemma Split_from_sublist: "x \<in> set (Split_from sep cur s) \<Longrightarrow> sublist x (rev cur @ s)"
proof (induction sep cur s rule: Split_from.induct)
  case (1 sep cur)
  then show ?case by simp
next
  case (2 sep cur c s)
  show ?case
  proof (cases "sep \<noteq> [] \<and> HasPrefix (c # s) sep")
    case True
    with "2.prems" have "x = rev cur \<or> x \<in> set (Split_from sep [] (drop (length sep) (c # s)))"
      by auto
    then show ?thesis
    proof
      assume "x = rev cur"
      then show ?thesis by simp
    next
      assume "x \<in> set (Split_from sep [] (drop (length sep) (c # s)))"
      then have "sublist x (drop (length sep) (c # s))"
        using "2.IH"(1)[OF True] by simp
      then obtain ps ss where "drop (length sep) (c # s) = ps @ x @ ss"
        by (auto simp: sublist_def)
      then have "rev cur @ c # s = (rev cur @ take (length sep) (c # s) @ ps) @ x @ ss"
        by (metis append.assoc append_take_drop_id)
      then show ?thesis unfolding sublist_def by blast
    qed
  next
    case False
    with "2.prems" have "x \<in> set (Split_from sep (c # cur) s)" by auto
    then show ?thesis using "2.IH"(2)[OF False] by simp
  qed
qed

lemma Split_sublist: "x \<in> set (Split s sep) \<Longrightarrow> sublist x s"
  using Split_from_sublist[of x sep "[]" s] by (simp add: Split_def)

lemma TrimSuffix_sublist: "sublist (TrimSuffix s p) s"
  by (simp add: TrimSuffix_def)

lemma TrimPrefix_sublist: "sublist (TrimPrefix s p) s"
  by (simp add: TrimPrefix_def)

lemma sublist_trans: "sublist xs ys \<Longrightarrow> sublist ys zs \<Longrightarrow> sublist xs zs"
  using sublist_order.order_trans by blast

lemma lineParts_token_in_policy:
  assumes "line \<in> set (Split policy ''__RETURN__'')" and "t \<in> set (lineParts line)"
  shows "sublist t policy"
proof -
  have "sublist t (TrimSuffix line ''[L]'')"
    using assms(2) Fields_sublist by (simp add: lineParts_def)
  then have "sublist t line" using TrimSuffix_sublist sublist_trans by blast
  then show ?thesis using Split_sublist[OF assms(1)] sublist_trans by blast
qed

section \<open>Malformed lines of a header-rewrite policy\<close>

lemma modHdrsLine_error: "modHdrsLine line st = Inl e \<Longrightarrow> \<exists>l. e = MalformedLine l"
  by (cases st) (auto simp: modHdrsLine_def Let_def split: if_splits)

lemma modHdrsLine_malformed: "malformedLine line \<Longrightarrow> isl (modHdrsLine line st)"
  by (cases st) (auto simp: modHdrsLine_def malformedLine_def lineParts_def Let_def)

lemma modHdrsLines_malformed:
  "\<exists>line \<in> set lines. malformedLine line \<Longrightarrow> \<exists>l. modHdrsLines lines st = Inl (MalformedLine l)"
proof (induction lines arbitrary: st)
  case Nil
  then show ?case by simp
next
  case (Cons line lines)
  show ?case
  proof (cases "modHdrsLine line st")
    case (Inl e)
    then show ?thesis using modHdrsLine_error[OF Inl] by auto
  next
    case (Inr st')
    then have "\<not> malformedLine line" using modHdrsLine_malformed[of line st] by auto
    with Cons.prems have "\<exists>line \<in> set lines. malformedLine line" by simp
    from Cons.IH[OF this] Inr show ?thesis by simp
  qed
qed

lemma makeModHdrs_malformed:
  assumes "line \<in> set (Split (Join (Fields edgeHRW) '' '') ''__RETURN__'')"
    and "malformedLine line"
    and "Contains (Join (Fields edgeHRW) '' '') ''-header''"
  shows "\<exists>l. makeModHdrs edgeHRW remapTXT = Inl (MalformedLine l)"
proof -
  have ne: "edgeHRW \<noteq> []"
    using assms(3) by (auto simp: Fields_def)
  obtain l where "modHdrsLines (Split (Join (Fields edgeHRW) '' '') ''__RETURN__'')
      (True, emptyModHdrs, emptyModHdrs) = Inl (MalformedLine l)"
    using modHdrsLines_malformed assms(1,2) by blast
  then show ?thesis
    using ne assms(3) by (simp add: makeModHdrs_def Let_def)
qed

text \<open>
  Claim C7, as the code has it. The lines are the pieces of the normalized policy between
  the \<^verbatim>\<open>__RETURN__\<close> terminators and the tokens of a line are the fields of the line
  without a trailing \<^verbatim>\<open>[L]\<close>. The lines are read only when the policy contains
  \<^verbatim>\<open>-header\<close>, and a line with no token is passed over. So: when the policy contains
  \<^verbatim>\<open>-header\<close> and a line has exactly one token, \<^verbatim>\<open>makeModHdrs\<close> fails with a
  malformed-line error; and when a line starts with \<^verbatim>\<open>set-header\<close> or \<^verbatim>\<open>add-header\<close> and
  has fewer than three tokens, \<^verbatim>\<open>makeModHdrs\<close> fails with a malformed-line error (such a
  policy contains \<^verbatim>\<open>-header\<close>).
\<close>

theorem malformed_header_lines_fail:
  assumes "line \<in> set (Split (Join (Fields edgeHRW) '' '') ''__RETURN__'')"
  shows "(Contains (Join (Fields edgeHRW) '' '') ''-header'' \<and> length (lineParts line) = 1
            \<longrightarrow> (\<exists>l. makeModHdrs edgeHRW remapTXT = Inl (MalformedLine l)))
       \<and> (lineParts line \<noteq> []
            \<and> (hd (lineParts line) = ''set-header'' \<or> hd (lineParts line) = ''add-header'')
            \<and> length (lineParts line) < 3
            \<longrightarrow> (\<exists>l. makeModHdrs edgeHRW remapTXT = Inl (MalformedLine l)))"
proof (intro conjI impI)
  assume "Contains (Join (Fields edgeHRW) '' '') ''-header'' \<and> length (lineParts line) = 1"
  then show "\<exists>l. makeModHdrs edgeHRW remapTXT = Inl (MalformedLine l)"
    using makeModHdrs_malformed[OF assms] by (simp add: malformedLine_def)
next
  assume h: "lineParts line \<noteq> []
            \<and> (hd (lineParts line) = ''set-header'' \<or> hd (lineParts line) = ''add-header'')
            \<and> length (lineParts line) < 3"
  then have hd_in: "hd (lineParts line) \<in> set (lineParts line)" by simp
  have "sublist ''-header'' (hd (lineParts line))"
  proof -
    have "''set-header'' = ''set'' @ ''-header'' @ []" and "''add-header'' = ''add'' @ ''-header'' @ []"
      by simp_all
    then have "sublist ''-header'' ''set-header''" and "sublist ''-header'' ''add-header''"
      unfolding sublist_def by blast+
    with h show ?thesis by auto
  qed
  then have "sublist ''-header'' (Join (Fields edgeHRW) '' '')"
    using lineParts_token_in_policy[OF assms hd_in] sublist_trans by blast
  then have gate: "Contains (Join (Fields edgeHRW) '' '') ''-header''"
    by (simp add: Contains_sublist)
  from h have "0 < length (lineParts line)" and "length (lineParts line) < 3"
    by simp_all
  then have "length (lineParts line) = 1 \<or> length (lineParts line) = 2"
    by arith
  moreover from h have "lineParts line ! 0 = hd (lineParts line)"
    by (simp add: hd_conv_nth)
  ultimately have "malformedLine line"
    using h by (auto simp: malformedLine_def Let_def)
  then show "\<exists>l. makeModHdrs edgeHRW remapTXT = Inl (MalformedLine l)"
    using makeModHdrs_malformed[OF assms _ gate] by blast
qed

text \<open>
  A policy whose first line is the one token \<^verbatim>\<open>rm-header\<close>, and a policy whose second line
  is \<^verbatim>\<open>add-header A\<close>.
\<close>

theorem malformed_header_lines_witness:
  "(\<exists>l. makeModHdrs ''rm-header__RETURN__set-header A b'' [] = Inl (MalformedLine l))
   \<and> (\<exists>l. makeModHdrs ''cond %{SEND_REQUEST_HDR_HOOK}__RETURN__add-header A'' [] = Inl (MalformedLine l))"
proof -
  have s1: "''rm-header'' \<in> set (Split (Join (Fields ''rm-header__RETURN__set-header A b'') '' '') ''__RETURN__'')"
    by (simp add: str_eval)
  have c1: "Contains (Join (Fields ''rm-header__RETURN__set-header A b'') '' '') ''-header''
      \<and> length (lineParts ''rm-header'') = 1"
    by (simp add: str_eval lineParts_def)
  have a: "\<exists>l. makeModHdrs ''rm-header__RETURN__set-header A b'' [] = Inl (MalformedLine l)"
    using malformed_header_lines_fail[OF s1, of "[]"] c1 by blast
  have s2: "''add-header A'' \<in> set (Split (Join (Fields ''cond %{SEND_REQUEST_HDR_HOOK}__RETURN__add-header A'') '' '') ''__RETURN__'')"
    by (simp add: str_eval)
  have c2: "lineParts ''add-header A'' \<noteq> []
      \<and> (hd (lineParts ''add-header A'') = ''set-header'' \<or> hd (lineParts ''add-header A'') = ''add-header'')
      \<and> length (lineParts ''add-header A'') < 3"
    by (simp add: str_eval lineParts_def)
  have b: "\<exists>l. makeModHdrs ''cond %{SEND_REQUEST_HDR_HOOK}__RETURN__add-header A'' [] = Inl (MalformedLine l)"
    using malformed_header_lines_fail[OF s2, of "[]"] c2 by blast
  from a b show ?thesis by simp
qed

text \<open>
  The claim fails on the policy \<^verbatim>\<open>cond\<close>: its one line has one token, the policy does not
  contain \<^verbatim>\<open>-header\<close>, and \<^verbatim>\<open>makeModHdrs\<close> succeeds with empty lists.
\<close>

theorem one_token_line_counterexample:
  "Split (Join (Fields ''cond'') '' '') ''__RETURN__'' = [''cond'']
   \<and> length (lineParts ''cond'') = 1
   \<and> makeModHdrs ''cond'' [] = Inr (emptyModHdrs, emptyModHdrs)"
  by (simp add: str_eval lineParts_def makeModHdrs_def)

section \<open>What the address parser returns\<close>

text \<open>
  A parsed address has 16 bytes, and a string without a colon can only parse to an
  IPv4-mapped address.
\<close>

lemma parseIPv4_fields_length:
  "parseIPv4_fields k later s = Some (p, rest) \<Longrightarrow> length p = k"
proof (induction k arbitrary: later s p rest)
  case 0
  then show ?case by simp
next
  case (Suc k)
  then show ?case
    by (auto simp: Let_def split: if_splits prod.splits option.splits)
qed

lemma parseIPv4_result:
  assumes "parseIPv4 s = Some ip"
  shows "length ip = 16 \<and> take 12 ip = v4InV6Prefix"
proof -
  from assms obtain p rest where p: "parseIPv4_fields 4 False s = Some (p, rest)"
    and ip: "ip = v4InV6Prefix @ p"
    by (auto simp: parseIPv4_def split: option.splits if_splits)
  from parseIPv4_fields_length[OF p] ip show ?thesis
    by (simp add: v4InV6Prefix_def)
qed

lemma parseIPv6_loop_length:
  "parseIPv6_loop ip e s = Some (ip', e', s') \<Longrightarrow> even (length ip) \<Longrightarrow> length ip \<le> 16 \<Longrightarrow>
   length ip' \<le> 16"
proof (induction "16 - length ip" arbitrary: ip e s rule: less_induct)
  case less
  show ?case
  proof (cases "16 \<le> length ip")
    case True
    with less.prems show ?thesis
      by (subst (asm) parseIPv6_loop.simps) simp
  next
    case False
    obtain n c ok where x: "xtoi s = (n, c, ok)" by (cases "xtoi s") auto
    from False less.prems(2,3) have le14: "length ip \<le> 14"
      by presburger
    let ?ip2 = "ip @ [of_nat (n div 256), of_nat n]"
    have IH: "\<And>e2 s2. parseIPv6_loop ?ip2 e2 s2 = Some (ip', e', s') \<Longrightarrow> length ip' \<le> 16"
    proof -
      fix e2 s2
      assume a: "parseIPv6_loop ?ip2 e2 s2 = Some (ip', e', s')"
      have "16 - length ?ip2 < 16 - length ip" using le14 by simp
      from less.hyps[OF this a] less.prems(2) le14 show "length ip' \<le> 16" by simp
    qed
    have v4: "\<And>ip4. parseIPv4 s = Some ip4 \<Longrightarrow> length (drop 12 ip4) = 4"
      using parseIPv4_result by fastforce
    define B where "B = (if \<not> ok \<or> n > 0xFFFF then None
        else if c < length s \<and> s ! c = CHR ''.'' then
          (if e = None \<and> length ip \<noteq> 12 then None
           else if length ip + 4 > 16 then None
           else case parseIPv4 s of
                  None \<Rightarrow> None
                | Some ip4 \<Rightarrow> Some (ip @ drop 12 ip4, e, []))
        else
          (let s1 = drop c s
           in if s1 = [] then Some (?ip2, e, s1)
              else if hd s1 \<noteq> CHR '':'' \<or> length s1 = 1 then None
              else let s2 = tl s1
                   in if hd s2 = CHR '':''
                      then (if e \<noteq> None then None
                            else let s3 = tl s2
                                 in if s3 = [] then Some (?ip2, Some (length ?ip2), s3)
                                    else parseIPv6_loop ?ip2 (Some (length ?ip2)) s3)
                      else parseIPv6_loop ?ip2 e s2))"
    have "parseIPv6_loop ip e s = B"
      unfolding B_def
      by (subst parseIPv6_loop.simps) (simp add: False x Let_def del: parseIPv6_loop.simps)
    with less.prems(1) have body: "B = Some (ip', e', s')" by simp
    show ?thesis
    proof (cases "c < length s \<and> s ! c = CHR ''.''")
      case True
      with body obtain ip4 where "parseIPv4 s = Some ip4" "ip' = ip @ drop 12 ip4"
        "length ip + 4 \<le> 16"
        by (auto simp: B_def split: if_splits option.splits simp del: parseIPv6_loop.simps)
      with v4 show ?thesis by simp
    next
      case False
      with body have "ip' = ?ip2 \<or> (\<exists>e2 s2. parseIPv6_loop ?ip2 e2 s2 = Some (ip', e', s'))"
        by (auto simp: B_def Let_def split: if_splits simp del: parseIPv6_loop.simps)
      then show ?thesis using IH le14 by auto
    qed
  qed
qed

lemma parseIPv6_length:
  assumes "parseIPv6 s = Some ip"
  shows "length ip = 16"
proof -
  define lead where "lead \<longleftrightarrow> 2 \<le> length s \<and> s ! 0 = CHR '':'' \<and> s ! 1 = CHR '':''"
  define s1 where "s1 = (if lead then drop 2 s else s)"
  define e0 where "e0 = (if lead then Some (0::nat) else None)"
  have unfolded: "parseIPv6 s =
      (if lead \<and> s1 = [] then Some (replicate 16 0)
       else case parseIPv6_loop [] e0 s1 of
              None \<Rightarrow> None
            | Some (ip, ellipsis', rest) \<Rightarrow>
                if rest \<noteq> [] then None
                else if length ip < 16 then
                  (case ellipsis' of
                     None \<Rightarrow> None
                   | Some e \<Rightarrow> Some (take e ip @ replicate (16 - length ip) 0 @ drop e ip))
                else if ellipsis' \<noteq> None then None
                else Some ip)"
    unfolding parseIPv6_def lead_def s1_def e0_def Let_def by (rule refl)
  show ?thesis
  proof (cases "lead \<and> s1 = []")
    case True
    with assms unfolded show ?thesis by auto
  next
    case False
    show ?thesis
    proof (cases "parseIPv6_loop [] e0 s1")
      case None
      with assms unfolded False show ?thesis by simp
    next
      case (Some t)
      obtain ip1 e1 rest where t: "t = (ip1, e1, rest)" by (cases t)
      from parseIPv6_loop_length[of "[]" e0 s1 ip1 e1 rest] Some t
      have le: "length ip1 \<le> 16" by simp
      from assms unfolded False Some t
      have r: "(if rest \<noteq> [] then None
               else if length ip1 < 16 then
                 (case e1 of None \<Rightarrow> None
                  | Some e \<Rightarrow> Some (take e ip1 @ replicate (16 - length ip1) 0 @ drop e ip1))
               else if e1 \<noteq> None then None else Some ip1) = Some ip"
        by simp
      show ?thesis
      proof (cases "length ip1 < 16")
        case True
        with r obtain e where "ip = take e ip1 @ replicate (16 - length ip1) 0 @ drop e ip1"
          by (auto split: if_splits option.splits)
        then have "length ip = length (take e ip1 @ drop e ip1) + (16 - length ip1)"
          by simp
        with True show ?thesis by simp
      next
        case False
        with r have "ip = ip1" by (auto split: if_splits)
        with False le show ?thesis by simp
      qed
    qed
  qed
qed

lemma ParseIP_scan_length: "ParseIP_scan r s = Some ip \<Longrightarrow> length ip = 16"
  by (induction r) (auto simp: parseIPv4_result parseIPv6_length split: if_splits)

lemma ParseIP_length: "ParseIP s = Some ip \<Longrightarrow> length ip = 16"
  by (simp add: ParseIP_def ParseIP_scan_length)

lemma ParseIP_scan_v4:
  "CHR '':'' \<notin> set r \<Longrightarrow> ParseIP_scan r s = Some ip \<Longrightarrow> take 12 ip = v4InV6Prefix"
  by (induction r) (auto simp: parseIPv4_result split: if_splits)

lemma ParseIP_v4: "CHR '':'' \<notin> set s \<Longrightarrow> ParseIP s = Some ip \<Longrightarrow> take 12 ip = v4InV6Prefix"
  by (simp add: ParseIP_def ParseIP_scan_v4)

section \<open>The mask-widening loop\<close>

text \<open>
  With no mask bit left every address is masked to zeros. The loop returns the greatest
  prefix length, from its start value downwards, at which the two masked addresses are
  equal.
\<close>

lemma map2_and_zero:
  "length xs = n \<Longrightarrow> map2 (AND) xs (replicate n (0::8 word)) = replicate n 0"
  by (induction xs arbitrary: n) auto

lemma CIDRMask_zero_32: "CIDRMask 0 32 = replicate 4 0"
  by (simp add: net_eval)

lemma CIDRMask_zero_128: "CIDRMask 0 128 = replicate 16 0"
  by (simp add: net_eval)

lemma masked_zero_128: "length ip = 16 \<Longrightarrow> IP_Mask ip (CIDRMask 0 128) = replicate 16 0"
  by (simp add: CIDRMask_zero_128 IP_Mask_def map2_and_zero)

lemma masked_zero_32:
  "length ip = 16 \<Longrightarrow> take 12 ip = v4InV6Prefix \<Longrightarrow> IP_Mask ip (CIDRMask 0 32) = replicate 4 0"
  by (simp add: CIDRMask_zero_32 IP_Mask_def map2_and_zero)

lemma maskLoop_spec:
  "maskLoop start end' m b = k \<Longrightarrow>
   k \<le> m
   \<and> IP_Equal (IP_Mask start (CIDRMask k b)) (IP_Mask end' (CIDRMask k b))
   \<and> (\<forall>j. k < j \<and> j \<le> m \<longrightarrow>
         \<not> IP_Equal (IP_Mask start (CIDRMask j b)) (IP_Mask end' (CIDRMask j b)))"
proof (induction start end' m b rule: maskLoop.induct)
  case (1 start end' maskBits allBits)
  show ?case
  proof (cases "IP_Equal (IP_Mask start (CIDRMask maskBits allBits))
                  (IP_Mask end' (CIDRMask maskBits allBits))")
    case True
    then have "maskLoop start end' maskBits allBits = maskBits"
      by (subst maskLoop.simps) simp
    with "1.prems" True show ?thesis by auto
  next
    case False
    then have "maskLoop start end' maskBits allBits = maskLoop start end' (maskBits - 1) allBits"
      by (subst maskLoop.simps) simp
    with "1.prems" have "maskLoop start end' (maskBits - 1) allBits = k" by simp
    from "1.IH"[OF False this] have
      a: "k \<le> maskBits - 1"
      and b: "IP_Equal (IP_Mask start (CIDRMask k allBits)) (IP_Mask end' (CIDRMask k allBits))"
      and c: "\<forall>j. k < j \<and> j \<le> maskBits - 1 \<longrightarrow>
         \<not> IP_Equal (IP_Mask start (CIDRMask j allBits)) (IP_Mask end' (CIDRMask j allBits))"
      by blast+
    have "\<forall>j. k < j \<and> j \<le> maskBits \<longrightarrow>
         \<not> IP_Equal (IP_Mask start (CIDRMask j allBits)) (IP_Mask end' (CIDRMask j allBits))"
    proof (intro allI impI)
      fix j assume j: "k < j \<and> j \<le> maskBits"
      show "\<not> IP_Equal (IP_Mask start (CIDRMask j allBits)) (IP_Mask end' (CIDRMask j allBits))"
      proof (cases "j = maskBits")
        case True
        with False show ?thesis by simp
      next
        case False
        with j have "k < j \<and> j \<le> maskBits - 1" by simp
        with c show ?thesis by blast
      qed
    qed
    with a b show ?thesis by simp
  qed
qed

lemma maskLoop_nonneg:
  assumes "IP_Equal (IP_Mask start (CIDRMask 0 b)) (IP_Mask end' (CIDRMask 0 b))" and "0 \<le> m"
  shows "0 \<le> maskLoop start end' m b"
proof (rule ccontr)
  assume "\<not> 0 \<le> maskLoop start end' m b"
  then have "maskLoop start end' m b < 0 \<and> 0 \<le> m" using assms(2) by simp
  with maskLoop_spec[OF refl, of start end' m b] assms(1) show False by blast
qed

text \<open>
  A token with a hyphen splits into at least two pieces, and the pieces have no character
  that the token has not.
\<close>

lemma Contains_char: "Contains s [c] \<longleftrightarrow> c \<in> set s"
proof -
  have "sublist [c] s \<longleftrightarrow> c \<in> set s"
  proof
    assume "sublist [c] s"
    then show "c \<in> set s" by (auto simp: sublist_def)
  next
    assume "c \<in> set s"
    then obtain ps ss where "s = ps @ c # ss" by (auto simp: in_set_conv_decomp)
    then have "s = ps @ [c] @ ss" by simp
    then show "sublist [c] s" unfolding sublist_def by blast
  qed
  then show ?thesis by (simp add: Contains_sublist)
qed

lemma Split_from_nonempty: "Split_from sep cur s \<noteq> []"
  by (induction sep cur s rule: Split_from.induct) auto

lemma Split_from_two:
  "sep \<noteq> [] \<Longrightarrow> sublist sep s \<Longrightarrow> 2 \<le> length (Split_from sep cur s)"
proof (induction sep cur s rule: Split_from.induct)
  case (1 sep cur)
  then show ?case by simp
next
  case (2 sep cur c s)
  show ?case
  proof (cases "HasPrefix (c # s) sep")
    case True
    have "Split_from sep [] (drop (length sep) (c # s)) \<noteq> []"
      by (rule Split_from_nonempty)
    then have "1 \<le> length (Split_from sep [] (drop (length sep) (c # s)))"
      by (cases "Split_from sep [] (drop (length sep) (c # s))") simp_all
    with True "2.prems"(1) show ?thesis by simp
  next
    case False
    with "2.prems"(2) have "sublist sep s"
      by (simp add: sublist_Cons_right HasPrefix_prefix)
    with "2.IH"(2)[of ] False "2.prems"(1) show ?thesis by simp
  qed
qed

lemma range_pieces:
  assumes "Contains allowStr ''-''"
  shows "2 \<le> length (Split (TrimPrefix allowStr ''@src_ip='') ''-'')
     \<and> (\<forall>x \<in> set (Split (TrimPrefix allowStr ''@src_ip='') ''-''). set x \<subseteq> set allowStr)"
proof -
  have m: "CHR ''-'' \<in> set allowStr" using assms by (simp add: Contains_char)
  have "CHR ''-'' \<in> set (TrimPrefix allowStr ''@src_ip='')"
  proof (cases "HasPrefix allowStr ''@src_ip=''")
    case True
    then have t: "take (length ''@src_ip='') allowStr = ''@src_ip=''"
      unfolding HasPrefix_def .
    have "set allowStr = set (take (length ''@src_ip='') allowStr)
        \<union> set (drop (length ''@src_ip='') allowStr)"
      by (metis append_take_drop_id set_append)
    then have "set allowStr = set ''@src_ip='' \<union> set (drop (length ''@src_ip='') allowStr)"
      by (simp only: t)
    moreover have "CHR ''-'' \<notin> set ''@src_ip=''" by simp
    ultimately have "CHR ''-'' \<in> set (drop (length ''@src_ip='') allowStr)"
      using m by blast
    moreover have "TrimPrefix allowStr ''@src_ip='' = drop (length ''@src_ip='') allowStr"
      unfolding TrimPrefix_def using True by (simp only: if_True)
    ultimately show ?thesis by (simp only:)
  next
    case False
    with m show ?thesis by (simp add: TrimPrefix_def)
  qed
  then have "sublist ''-'' (TrimPrefix allowStr ''@src_ip='')"
    using Contains_char Contains_sublist by blast
  then have two: "2 \<le> length (Split (TrimPrefix allowStr ''@src_ip='') ''-'')"
    using Split_from_two[of "''-''"] by (simp add: Split_def)
  have "\<forall>x \<in> set (Split (TrimPrefix allowStr ''@src_ip='') ''-''). set x \<subseteq> set allowStr"
  proof
    fix x assume "x \<in> set (Split (TrimPrefix allowStr ''@src_ip='') ''-'')"
    then have "sublist x (TrimPrefix allowStr ''@src_ip='')" by (rule Split_sublist)
    then have "sublist x allowStr" using TrimPrefix_sublist sublist_trans by blast
    then show "set x \<subseteq> set allowStr" by (rule set_mono_sublist)
  qed
  with two show ?thesis by simp
qed

lemma range_masked_equal_at_zero:
  assumes "Contains allowStr ''-''"
    and "ParseIP (Split (TrimPrefix allowStr ''@src_ip='') ''-'' ! 0) = Some start"
    and "ParseIP (Split (TrimPrefix allowStr ''@src_ip='') ''-'' ! 1) = Some end'"
  shows "IP_Equal (IP_Mask start (CIDRMask 0 (allBitsOf allowStr)))
                  (IP_Mask end' (CIDRMask 0 (allBitsOf allowStr)))"
proof -
  let ?a = "Split (TrimPrefix allowStr ''@src_ip='') ''-''"
  from range_pieces[OF assms(1)] have two: "2 \<le> length ?a"
    and sub: "\<forall>x \<in> set ?a. set x \<subseteq> set allowStr" by simp_all
  from two have "0 < length ?a" and "1 < length ?a" by linarith+
  then have in0: "?a ! 0 \<in> set ?a" and in1: "?a ! 1 \<in> set ?a"
    using nth_mem by blast+
  have l: "length start = 16" "length end' = 16"
    using assms(2,3) ParseIP_length by blast+
  show ?thesis
  proof (cases "Contains allowStr '':''")
    case True
    then have "allBitsOf allowStr = 128" by (simp add: allBitsOf_def)
    with l show ?thesis by (simp add: masked_zero_128 IP_Equal_def)
  next
    case False
    then have b: "allBitsOf allowStr = 32" by (simp add: allBitsOf_def)
    from False have "CHR '':'' \<notin> set allowStr" by (simp add: Contains_char)
    with sub in0 in1 have "CHR '':'' \<notin> set (?a ! 0)" "CHR '':'' \<notin> set (?a ! 1)" by blast+
    then have "take 12 start = v4InV6Prefix" "take 12 end' = v4InV6Prefix"
      using assms(2,3) ParseIP_v4 by blast+
    with l b show ?thesis by (simp add: masked_zero_32 IP_Equal_def)
  qed
qed

lemma allBitsOf_nonneg: "0 \<le> allBitsOf allowStr"
  by (simp add: allBitsOf_def)

lemma aclEntry_range:
  assumes "Contains allowStr ''-''"
    and "ParseIP (Split (TrimPrefix allowStr ''@src_ip='') ''-'' ! 0) = Some start"
    and "ParseIP (Split (TrimPrefix allowStr ''@src_ip='') ''-'' ! 1) = Some end'"
  shows "aclEntry remapTxt allowStr =
     Inr \<lparr>IP = IP_Mask start
                (CIDRMask (maskLoop start end' (allBitsOf allowStr) (allBitsOf allowStr))
                   (allBitsOf allowStr)),
          Mask = CIDRMask (maskLoop start end' (allBitsOf allowStr) (allBitsOf allowStr))
                   (allBitsOf allowStr)\<rparr>"
proof -
  from range_pieces[OF assms(1)]
  have "\<not> length (Split (TrimPrefix allowStr ''@src_ip='') ''-'') < 2" by simp
  with assms show ?thesis
    by (simp add: aclEntry_def Let_def del: maskLoop.simps)
qed



text \<open>
  Claim C10. For a range token whose start and end both parse as addresses, the
  mask-widening loop stops at a prefix length that is at least 0 and at most the bit width:
  at prefix length 0 the masked start and the masked end are equal, both being all zeros.
  The loop is a total function (its termination is proved with its definition), and the
  loop body of \<^verbatim>\<open>makeACL\<close> returns a network for such a token.
\<close>

theorem maskLoop_terminates_nonnegative:
  assumes "Contains allowStr ''-''"
    and "ParseIP (Split (TrimPrefix allowStr ''@src_ip='') ''-'' ! 0) = Some start"
    and "ParseIP (Split (TrimPrefix allowStr ''@src_ip='') ''-'' ! 1) = Some end'"
  shows "0 \<le> maskLoop start end' (allBitsOf allowStr) (allBitsOf allowStr)
       \<and> maskLoop start end' (allBitsOf allowStr) (allBitsOf allowStr) \<le> allBitsOf allowStr
       \<and> IP_Equal (IP_Mask start (CIDRMask 0 (allBitsOf allowStr)))
                   (IP_Mask end' (CIDRMask 0 (allBitsOf allowStr)))
       \<and> \<not> isl (aclEntry remapTxt allowStr)"
proof -
  have z: "IP_Equal (IP_Mask start (CIDRMask 0 (allBitsOf allowStr)))
                    (IP_Mask end' (CIDRMask 0 (allBitsOf allowStr)))"
    by (rule range_masked_equal_at_zero[OF assms])
  have lo: "0 \<le> maskLoop start end' (allBitsOf allowStr) (allBitsOf allowStr)"
    by (rule maskLoop_nonneg[OF z allBitsOf_nonneg])
  have hi: "maskLoop start end' (allBitsOf allowStr) (allBitsOf allowStr) \<le> allBitsOf allowStr"
    using maskLoop_spec[OF refl, of start end' "allBitsOf allowStr" "allBitsOf allowStr"] by blast
  have r: "\<not> isl (aclEntry remapTxt allowStr)"
    using aclEntry_range[OF assms, of remapTxt] by simp
  from lo hi z r show ?thesis by blast
qed

lemma Contains_dash_example: "Contains ''10.0.0.1-10.0.0.6'' ''-''"
  by (simp add: HasPrefix_def)

lemma ParseIP_10_0_0_1: "ParseIP ''10.0.0.1'' = Some [0, 0, 0, 0, 0, 0, 0, 0, 0, 0, 255, 255, 10, 0, 0, 1]"
  by (simp add: net_eval)

lemma ParseIP_10_0_0_6: "ParseIP ''10.0.0.6'' = Some [0, 0, 0, 0, 0, 0, 0, 0, 0, 0, 255, 255, 10, 0, 0, 6]"
  by (simp add: net_eval)

lemma Split_range_example:
  "Split (TrimPrefix ''10.0.0.1-10.0.0.6'' ''@src_ip='') ''-'' = [''10.0.0.1'', ''10.0.0.6'']"
  by (simp add: str_eval)

lemma allBitsOf_range_example: "allBitsOf ''10.0.0.1-10.0.0.6'' = 32"
  by (simp add: allBitsOf_def HasPrefix_def)

text \<open>The token \<^verbatim>\<open>10.0.0.1-10.0.0.6\<close>.\<close>

theorem maskLoop_terminates_witness:
  "0 \<le> maskLoop [0, 0, 0, 0, 0, 0, 0, 0, 0, 0, 255, 255, 10, 0, 0, 1]
          [0, 0, 0, 0, 0, 0, 0, 0, 0, 0, 255, 255, 10, 0, 0, 6] 32 32
   \<and> maskLoop [0, 0, 0, 0, 0, 0, 0, 0, 0, 0, 255, 255, 10, 0, 0, 1]
          [0, 0, 0, 0, 0, 0, 0, 0, 0, 0, 255, 255, 10, 0, 0, 6] 32 32 \<le> 32
   \<and> \<not> isl (aclEntry ''@action=allow 10.0.0.1-10.0.0.6'' ''10.0.0.1-10.0.0.6'')"
proof -
  have a: "ParseIP (Split (TrimPrefix ''10.0.0.1-10.0.0.6'' ''@src_ip='') ''-'' ! 0)
      = Some [0, 0, 0, 0, 0, 0, 0, 0, 0, 0, 255, 255, 10, 0, 0, 1]"
    by (simp add: Split_range_example ParseIP_10_0_0_1)
  have b: "ParseIP (Split (TrimPrefix ''10.0.0.1-10.0.0.6'' ''@src_ip='') ''-'' ! 1)
      = Some [0, 0, 0, 0, 0, 0, 0, 0, 0, 0, 255, 255, 10, 0, 0, 6]"
    by (simp add: Split_range_example ParseIP_10_0_0_6)
  from maskLoop_terminates_nonnegative[OF Contains_dash_example a b,
      of "''@action=allow 10.0.0.1-10.0.0.6''"]
  show ?thesis by (simp add: allBitsOf_range_example del: maskLoop.simps)
qed

lemma maskLoop_range_example:
  "maskLoop [0, 0, 0, 0, 0, 0, 0, 0, 0, 0, 255, 255, 10, 0, 0, 1]
            [0, 0, 0, 0, 0, 0, 0, 0, 0, 0, 255, 255, 10, 0, 0, 6] 32 32 = 29"
  by (simp add: net_eval)


section \<open>The network of a range token\<close>



section \<open>Single addresses\<close>

text \<open>The two single addresses of the specification compile to their host networks.\<close>

lemma makeACL_single_address_examples:
  "makeACL ''@action=allow 192.168.1.5''
     = Inr [\<lparr>IP = [192, 168, 1, 5], Mask = CIDRMask 32 32\<rparr>]
   \<and> makeACL ''@action=allow 2001:db8::1''
     = Inr [\<lparr>IP = [0x20, 0x01, 0x0d, 0xb8, 0, 0, 0, 0, 0, 0, 0, 0, 0, 0, 0, 1],
             Mask = CIDRMask 128 128\<rparr>]"
  by (simp add: makeACL_def aclEntry_def allBitsOf_def str_eval net_eval)

text \<open>
  Claim C6 says that a single-address token that is a valid address compiles to the host
  network of exactly that address. The single-address branch removes \<^verbatim>\<open>@src_ip=\<close> with
  \<^verbatim>\<open>strings.Trim\<close>, which takes its second argument as a set of characters and trims both
  ends, where the range branch uses \<^verbatim>\<open>strings.TrimPrefix\<close>. The hexadecimal digit \<open>c\<close> is
  in that set: for the token \<^verbatim>\<open>@src_ip=2001:db8::c\<close> the address parsed is \<open>2001:db8::\<close>,
  and the network emitted is \<open>2001:db8::/128\<close>, not the host network of \<open>2001:db8::c\<close>.
\<close>

theorem single_address_trim_cutset:
  "ParseIP ''2001:db8::c''
     = Some [0x20, 0x01, 0x0d, 0xb8, 0, 0, 0, 0, 0, 0, 0, 0, 0, 0, 0, 0x0c]
   \<and> Trim ''@src_ip=2001:db8::c'' ''@src_ip='' = ''2001:db8::''
   \<and> makeACL ''@action=allow @src_ip=2001:db8::c''
     = Inr [\<lparr>IP = [0x20, 0x01, 0x0d, 0xb8, 0, 0, 0, 0, 0, 0, 0, 0, 0, 0, 0, 0],
             Mask = CIDRMask 128 128\<rparr>]"
  by (simp add: makeACL_def aclEntry_def allBitsOf_def str_eval net_eval)

end
